theory Spec2Isabelle
  imports Main "HOL-Library.Word"
begin

unbundle bit_operations_syntax

section \<open>Machine types and failures\<close>

type_synonym u8 = "8 word"
type_synonym u16 = "16 word"
type_synonym u32 = "32 word"

text \<open>A Go call either returns, returns a non-nil \<open>error\<close>, or panics.\<close>

datatype failure = Panic | Err string

section \<open>util: the byte codec helpers\<close>

text \<open>\<open>binary.LittleEndian\<close> on two bytes.\<close>

definition le_u16 :: "u8 \<Rightarrow> u8 \<Rightarrow> u16" where
  "le_u16 lo hi = ucast lo OR push_bit 8 (ucast hi)"

text \<open>\<open>GetPacketSize\<close>: the packet length from the first two bytes of data.\<close>

definition GetPacketSize :: "u8 list \<Rightarrow> failure + u16" where
  "GetPacketSize data =
     (if length data < 2 then Inl (Err ''getSize(): data must be at least two bytes'')
      else Inr (le_u16 (data ! 0) (data ! 1)))"

text \<open>
  \<open>Utf8To16\<close>: \<open>arr[i] = uint16(src[i*2] | (src[(i*2)+1] << 8))\<close>. Both operands of
  \<open>|\<close> are \<open>uint8\<close>, so the shift and the disjunction are computed on 8 bits and only
  the result is widened.
\<close>

definition Utf8To16 :: "u8 list \<Rightarrow> u16 list" where
  "Utf8To16 src0 =
     (let src = (if length src0 mod 2 \<noteq> 0 then src0 @ [0] else src0)
      in map (\<lambda>i. ucast ((src ! (i * 2)) OR (push_bit 8 (src ! (i * 2 + 1)) :: u8)))
           [0 ..< length src div 2])"

text \<open>\<open>ExpandUtf16\<close>: every element becomes its low byte followed by its high byte.\<close>

definition ExpandUtf16 :: "u16 list \<Rightarrow> u8 list" where
  "ExpandUtf16 src = concat (map (\<lambda>v. [ucast v, ucast (drop_bit 8 v AND 0xFF)]) src)"

text \<open>
  \<open>StripPadding\<close>: the loop runs \<open>i\<close> from \<open>len(b) - 1\<close> down to 0; the second argument
  of the loop function is \<open>i + 1\<close>.
\<close>

fun StripPadding_loop :: "u8 list \<Rightarrow> nat \<Rightarrow> u8 list" where
  "StripPadding_loop b 0 = b"
| "StripPadding_loop b (Suc i) =
     (if b ! i \<noteq> 0 then take (Suc i) b else StripPadding_loop b i)"

definition StripPadding :: "u8 list \<Rightarrow> u8 list" where
  "StripPadding b = StripPadding_loop b (length b)"

text \<open>\<open>ZeroSlice\<close>: sets the first \<open>length\<close> bytes of \<open>arr\<close> (at most all of it) to 0.\<close>

definition ZeroSlice :: "u8 list \<Rightarrow> int \<Rightarrow> u8 list" where
  "ZeroSlice arr length0 =
     (let length1 = (if int (length arr) < length0 then int (length arr) else length0)
      in fold (\<lambda>i a. a[i := 0]) [0 ..< nat length1] arr)"

text \<open>
  Go's \<open>a[lo:hi]\<close> on a slice, panicking outside the bounds. Go bounds \<open>hi\<close> by the
  capacity of the slice; the model has no capacity and bounds it by the length, which
  is the capacity of a buffer made by \<open>make([]byte, n)\<close>.
\<close>

definition slice :: "'a list \<Rightarrow> nat \<Rightarrow> nat \<Rightarrow> 'a list option" where
  "slice xs lo hi = (if lo \<le> hi \<and> hi \<le> length xs then Some (take (hi - lo) (drop lo xs)) else None)"

subsection \<open>The debug print\<close>

text \<open>
  \<open>PrintPayload\<close> writes to stdout; the model keeps whether it returns (\<open>True\<close>) or
  panics on a slice expression (\<open>False\<close>). \<open>printPacketLine\<close> reads \<open>data[i]\<close> for
  \<open>i < length\<close> on a slice of that length and cannot panic. \<open>rem\<close> and \<open>offset\<close> are
  Go \<open>int\<close>s; the bounds of the slices are never negative here.
\<close>

definition displayWidth :: int where
  "displayWidth = 16"

function PrintPayload_loop :: "u8 list \<Rightarrow> int \<Rightarrow> int \<Rightarrow> int \<Rightarrow> bool" where
  "PrintPayload_loop data pktLen rem offset =
     (if rem > 0 then
        (if rem < displayWidth
         then slice data (nat (pktLen - rem)) (nat pktLen) \<noteq> None
         else slice data (nat offset) (nat (offset + displayWidth)) \<noteq> None)
        \<and> PrintPayload_loop data pktLen (rem - displayWidth) (offset + displayWidth)
      else True)"
  by pat_completeness auto
termination
  by (relation "measure (\<lambda>(data, pktLen, rem, offset). nat rem)") (auto simp: displayWidth_def)

definition PrintPayload :: "u8 list \<Rightarrow> int \<Rightarrow> bool" where
  "PrintPayload data pktLen = PrintPayload_loop data pktLen pktLen 0"

section \<open>The send path\<close>

text \<open>
  \<open>fixLength\<close>: \<open>length\<close> is a \<open>uint16\<close>, so \<open>length++\<close> wraps at \<open>2^16\<close>. The loop
  condition divides by \<open>hdrSize\<close>; Go panics when it is 0.
\<close>

function fixLength_loop :: "u8 list \<Rightarrow> u16 \<Rightarrow> u16 \<Rightarrow> u8 list \<times> u16" where
  "fixLength_loop data len hdrSize =
     (if len mod hdrSize \<noteq> 0 then fixLength_loop (data @ [0]) (len + 1) hdrSize
      else (data, len))"
  by pat_completeness auto
termination
proof (relation "measure (\<lambda>(data, len, hdrSize). if len = 0 then 0 else 65536 - unat len)")
  fix data :: "u8 list" and len hdrSize :: u16
  assume "len mod hdrSize \<noteq> 0"
  then have nz: "len \<noteq> 0" by auto
  have b: "unat len < 65536" "unat (len + 1) < 65536"
    using unsigned_less [of len, where ?'a = nat] unsigned_less [of "len + 1", where ?'a = nat]
    by simp_all
  have "(if len + 1 = 0 then 0 else 65536 - unat (len + 1))
      < (if len = 0 then 0 else 65536 - unat len)"
    using nz b unatSuc [of len] by (auto simp: add.commute)
  then show "((data @ [0], len + 1, hdrSize), (data, len, hdrSize))
      \<in> measure (\<lambda>(data, len, hdrSize). if len = 0 then 0 else 65536 - unat len)"
    by simp
qed simp


text \<open>
  \<open>fixLength\<close>: pads, then writes the length into the first two bytes; an index
  outside the slice panics.
\<close>

definition fixLength :: "u8 list \<Rightarrow> u16 \<Rightarrow> u16 \<Rightarrow> failure + (u8 list \<times> u16)" where
  "fixLength data len hdrSize =
     (if hdrSize = 0 then Inl Panic
      else case fixLength_loop data len hdrSize of
        (data', len') \<Rightarrow>
          if length data' < 2 then Inl Panic
          else Inr (data'[0 := ucast (len' AND 0xFF),
                          1 := ucast (drop_bit 8 (len' AND 0xFF00))], len'))"

text \<open>
  \<open>sendPacket\<close> hands \<open>pkt[:length]\<close> to the connection: that slice is the frame on the
  wire. (Go allows a slice up to the capacity; the model has no capacity and takes the
  length of the slice as the bound.)
\<close>

definition sendPacket :: "u8 list \<Rightarrow> u16 \<Rightarrow> failure + u8 list" where
  "sendPacket pkt len = (if length pkt < unat len then Inl Panic else Inr (take (unat len) pkt))"

text \<open>
  \<open>sendEncrypted\<close>: the cipher of the client is not part of the sources at hand; it is
  the parameter \<open>encrypt\<close>, which rewrites the first \<open>length\<close> bytes in place.
  \<open>debugMode\<close> is \<open>config.DebugMode\<close>.
\<close>

definition sendEncrypted ::
  "bool \<Rightarrow> (u8 list \<Rightarrow> u8 list) \<Rightarrow> u16 \<Rightarrow> u8 list \<Rightarrow> u16 \<Rightarrow> failure + u8 list" where
  "sendEncrypted debugMode encrypt hdrSize data len =
     (case fixLength data len hdrSize of
        Inl e \<Rightarrow> Inl e
      | Inr (data', len') \<Rightarrow>
          if debugMode \<and> \<not> PrintPayload data' (uint len') then Inl Panic
          else sendPacket (encrypt (take (unat len') data') @ drop (unat len') data') len')"

section \<open>CRC-32 (IEEE), as \<open>hash/crc32\<close> computes it\<close>

definition crc32_bit :: "u32 \<Rightarrow> u32" where
  "crc32_bit c = (if bit c 0 then drop_bit 1 c XOR 0xEDB88320 else drop_bit 1 c)"

definition crc32_byte :: "u32 \<Rightarrow> u8 \<Rightarrow> u32" where
  "crc32_byte c b = (crc32_bit ^^ 8) (c XOR ucast b)"

definition ChecksumIEEE :: "u8 list \<Rightarrow> u32" where
  "ChecksumIEEE data = NOT (fold (\<lambda>b c. crc32_byte c b) data 0xFFFFFFFF)"

section \<open>Serialising the fields of a struct\<close>

text \<open>\<open>binary.Write\<close> with \<open>binary.LittleEndian\<close> for the scalar fields.\<close>

definition put_u16 :: "u16 \<Rightarrow> u8 list" where
  "put_u16 w = [ucast w, ucast (drop_bit 8 w)]"

definition put_u32 :: "u32 \<Rightarrow> u8 list" where
  "put_u32 w = [ucast w, ucast (drop_bit 8 w), ucast (drop_bit 16 w), ucast (drop_bit 24 w)]"

definition get_u32 :: "u8 list \<Rightarrow> u32" where
  "get_u32 bs = ucast (bs ! 0) OR push_bit 8 (ucast (bs ! 1))
     OR push_bit 16 (ucast (bs ! 2)) OR push_bit 24 (ucast (bs ! 3))"

text \<open>Go's \<open>copy(dst, src)\<close>: the first \<open>min(len(dst), len(src))\<close> elements.\<close>

definition copy :: "'a list \<Rightarrow> 'a list \<Rightarrow> 'a list" where
  "copy dst src = take (length dst) src @ drop (length src) dst"

text \<open>\<open>[]uint8(s)\<close> for a string.\<close>

definition bytes_of_string :: "string \<Rightarrow> u8 list" where
  "bytes_of_string s = map (\<lambda>c. of_nat (of_char c)) s"

section \<open>The parameter cache\<close>

text \<open>
  Modelled from the spec: the constant \<open>MAX_CHUNK_SIZE\<close> is declared outside the sources
  at hand; the spec gives \<open>MaxChunkSize = 0x6800\<close> for guildcard and parameter payloads.
\<close>

definition MAX_CHUNK_SIZE :: nat where
  "MAX_CHUNK_SIZE = 0x6800"

definition paramFiles :: "string list" where
  "paramFiles =
     [''ItemMagEdit.prs'', ''ItemPMT.prs'', ''BattleParamEntry.dat'',
      ''BattleParamEntry_on.dat'', ''BattleParamEntry_lab.dat'',
      ''BattleParamEntry_lab_on.dat'', ''BattleParamEntry_ep4.dat'',
      ''BattleParamEntry_ep4_on.dat'', ''PlyLevelTbl.prs'']"

record ParameterEntry =
  Size :: u32
  Checksum :: u32
  Offset :: u32
  Filename :: "u8 list"

text \<open>\<open>BytesFromStruct\<close> on a \<open>ParameterEntry\<close>: the four fields in declaration order.\<close>

definition BytesFromStruct_ParameterEntry :: "ParameterEntry \<Rightarrow> u8 list" where
  "BytesFromStruct_ParameterEntry e =
     put_u32 (Size e) @ put_u32 (Checksum e) @ put_u32 (Offset e) @ Filename e"

text \<open>
  The loop over \<open>paramFiles\<close>. \<open>ioutil.ReadFile\<close> is the parameter \<open>readFile\<close>
  (\<open>None\<close> when it returns an error). \<open>offset\<close> is a Go \<open>int\<close> that only ever holds
  a sum of lengths of slices in memory, a natural number here.
\<close>

definition newParameterEntry :: "string \<Rightarrow> u8 list \<Rightarrow> nat \<Rightarrow> ParameterEntry" where
  "newParameterEntry paramFile data offset =
     \<lparr>Size = of_nat (length data), Checksum = ChecksumIEEE data, Offset = of_nat offset,
      Filename = copy (replicate 0x40 0) (bytes_of_string paramFile)\<rparr>"

fun loadParameterFiles_read ::
  "(string \<Rightarrow> u8 list option) \<Rightarrow> string list \<Rightarrow> nat \<Rightarrow> u8 list \<Rightarrow> u8 list
     \<Rightarrow> failure + (nat \<times> u8 list \<times> u8 list)" where
  "loadParameterFiles_read readFile [] offset paramHeaderData tmpChunkData =
     Inr (offset, paramHeaderData, tmpChunkData)"
| "loadParameterFiles_read readFile (paramFile # rest) offset paramHeaderData tmpChunkData =
     (case readFile (''parameters/'' @ paramFile) of
        None \<Rightarrow> Inl Panic
      | Some data \<Rightarrow>
          loadParameterFiles_read readFile rest (offset + length data)
            (paramHeaderData
               @ BytesFromStruct_ParameterEntry (newParameterEntry paramFile data offset))
            (tmpChunkData @ data))"

text \<open>The loop \<open>for i := 0; i < chunks; i++\<close> that fills the map \<open>paramChunkData\<close>.\<close>

function loadParameterFiles_chunks ::
  "u8 list \<Rightarrow> nat \<Rightarrow> nat \<Rightarrow> (nat \<rightharpoonup> u8 list) \<Rightarrow> nat
     \<Rightarrow> failure + ((nat \<rightharpoonup> u8 list) \<times> nat)" where
  "loadParameterFiles_chunks tmpChunkData chunks i paramChunkData offset =
     (if i < chunks then
        (case slice tmpChunkData (i * MAX_CHUNK_SIZE) (i * MAX_CHUNK_SIZE + MAX_CHUNK_SIZE) of
           None \<Rightarrow> Inl Panic
         | Some s \<Rightarrow>
             loadParameterFiles_chunks tmpChunkData chunks (i + 1) (paramChunkData(i \<mapsto> s))
               (offset - MAX_CHUNK_SIZE))
      else Inr (paramChunkData, offset))"
  by pat_completeness auto
termination
  by (relation "measure (\<lambda>(tmpChunkData, chunks, i, paramChunkData, offset). chunks - i)") auto

text \<open>
  \<open>loadParameterFiles\<close>: the result is the pair of the globals \<open>paramHeaderData\<close>
  (empty before the call) and \<open>paramChunkData\<close>.
\<close>

definition loadParameterFiles ::
  "(string \<Rightarrow> u8 list option) \<Rightarrow> failure + (u8 list \<times> (nat \<rightharpoonup> u8 list))" where
  "loadParameterFiles readFile =
     (case loadParameterFiles_read readFile paramFiles 0 [] [] of
        Inl e \<Rightarrow> Inl e
      | Inr (offset, paramHeaderData, tmpChunkData) \<Rightarrow>
          let chunks = offset div MAX_CHUNK_SIZE in
          (case loadParameterFiles_chunks tmpChunkData chunks 0 Map.empty offset of
             Inl e \<Rightarrow> Inl e
           | Inr (paramChunkData, offset') \<Rightarrow>
               if offset' > 0 then
                 (if chunks * MAX_CHUNK_SIZE \<le> length tmpChunkData
                  then Inr (paramHeaderData,
                            paramChunkData(chunks \<mapsto> drop (chunks * MAX_CHUNK_SIZE) tmpChunkData))
                  else Inl Panic)
               else Inr (paramHeaderData, paramChunkData)))"

text \<open>
  Reading the header blob back: the \<open>i\<close>-th \<open>ParameterEntry\<close> of \<open>paramHeaderData\<close>
  (76 bytes each), as the client decodes it.
\<close>

definition headerEntry :: "u8 list \<Rightarrow> nat \<Rightarrow> ParameterEntry" where
  "headerEntry hdr i =
     (let bs = drop (76 * i) hdr
      in \<lparr>Size = get_u32 bs, Checksum = get_u32 (drop 4 bs), Offset = get_u32 (drop 8 bs),
          Filename = take 0x40 (drop 12 bs)\<rparr>)"


section \<open>Packets of the CHARACTER server\<close>

text \<open>
  Modelled from the spec: the header struct \<open>BBPktHeader\<close>, the header size and the
  chunk size are declared outside the sources at hand. The spec gives the BB header as
  \<open>size: u16\<close>, \<open>type: u16\<close>, \<open>flags: u32\<close> (8 bytes) and \<open>MaxChunkSize = 0x6800\<close>.
\<close>

record BBPktHeader =
  pktSize :: u16
  pktType :: u16
  pktFlags :: u32

definition BBHeaderSize :: nat where
  "BBHeaderSize = 8"

definition MaxChunkSize :: u16 where
  "MaxChunkSize = 0x6800"

text \<open>
  \<open>StructFromBytes\<close> into a \<open>BBPktHeader\<close>: \<open>binary.Read\<close> fails, and the function
  panics, when the bytes run out.
\<close>

definition StructFromBytes_BBPktHeader :: "u8 list \<Rightarrow> BBPktHeader option" where
  "StructFromBytes_BBPktHeader data =
     (if length data < 8 then None
      else Some \<lparr>pktSize = le_u16 (data ! 0) (data ! 1), pktType = le_u16 (data ! 2) (data ! 3),
                 pktFlags = get_u32 (drop 4 data)\<rparr>)"

text \<open>
  The packets a handler passes to \<open>BytesFromStruct\<close> and \<open>sendEncrypted\<close>, with the
  fields the \<open>Send\<close> functions set. The packet structs themselves are declared
  outside the sources at hand, so a sent packet is recorded by its fields.
\<close>

datatype packet =
    SecurityPacket u32 u32  \<comment> \<open>ErrorCode, Guildcard\<close>
  | OptionsPacket u32 "u8 list" "u8 list"  \<comment> \<open>Guildcard, KeyConfig, JoystickConfig\<close>
  | CharPreviewNonePacket u32  \<comment> \<open>Slot\<close>
  | ChecksumAckPacket u32  \<comment> \<open>Ack\<close>
  | GuildcardHeaderPacket u32 u16 u32  \<comment> \<open>Unknown, Length, Checksum\<close>
  | GuildcardChunkPacket u32 "u8 list"  \<comment> \<open>Chunk, Data\<close>
  | ParameterHeaderPacket u32 "u8 list"  \<comment> \<open>Header.Flags, Entries\<close>
  | ParameterChunkPacket u32 "u8 list"  \<comment> \<open>Chunk, Data\<close>

text \<open>
  The client of a session. \<open>conn\<close> is represented by what was written to it and
  whether it was closed; \<open>recvSize\<close> is a Go \<open>int\<close> that counts received bytes.
\<close>

record 'k LoginClient =
  ipAddr :: string
  clientCrypt :: 'k
  recvData :: "u8 list"
  recvSize :: nat
  packetSize :: u16
  guildcard :: u32
  flag :: u32
  gcData :: "u8 list"
  gcDataSize :: u16
  conn_sent :: "packet list"
  conn_closed :: bool

text \<open>The numeric packet types: constants declared outside the sources at hand.\<close>

record pktTypes =
  LoginType :: u16
  DisconnectType :: u16
  OptionsRequestType :: u16
  CharPreviewReqType :: u16
  ChecksumType :: u16
  GuildcardReqType :: u16
  GuildcardChunkReqType :: u16
  ParameterHeaderReqType :: u16
  ParameterChunkReqType :: u16
  SetFlagType :: u16
  CharPreviewType :: u16

datatype 'a queryResult = Row 'a | ErrNoRows | QueryError

record gcRow =
  friend_gc :: u32
  language :: u8
  section_id :: u8
  char_class :: u8

text \<open>
  What the server takes from outside the sources at hand, as parameters: the constants,
  the configuration, the cipher, the database and the decoders of the request structs
  (\<open>None\<close> or \<open>False\<close> where \<open>StructFromBytes\<close> panics), and the parameter cache that
  \<open>loadParameterFiles\<close> built.
\<close>

record 'k env =
  types :: pktTypes
  DebugMode :: bool
  BBLoginErrorNone :: u32
  BaseKeyConfig :: "u8 list"
  Decrypt :: "'k \<Rightarrow> u8 list \<Rightarrow> u8 list \<times> 'k"
  VerifyAccount :: "'k LoginClient \<Rightarrow> failure option \<times> 'k LoginClient"
  queryKeyConfig :: "u32 \<Rightarrow> u8 list queryResult"
  insertKeyConfig :: "u32 \<Rightarrow> u8 list \<Rightarrow> bool"
  queryCharacter :: "u32 \<Rightarrow> u32 \<Rightarrow> unit queryResult"
  queryGuildcardEntries :: "u32 \<Rightarrow> gcRow option list option"
  readCharPreviewRequest :: "u8 list \<Rightarrow> u32 option"
  readGuildcardChunkReq :: "u8 list \<Rightarrow> (u32 \<times> u32) option"
  readSetFlag :: "u8 list \<Rightarrow> u32 option"
  readCharPreview :: "u8 list \<Rightarrow> bool"
  paramHeaderData :: "u8 list"
  paramChunkData :: "nat \<rightharpoonup> u8 list"

text \<open>A handler returns its \<open>error\<close> (\<open>None\<close> for \<open>nil\<close>) or panics, with the client as it left it.\<close>

type_synonym 'k handled = "failure option \<times> 'k LoginClient"

text \<open>
  Every \<open>Send\<close> function serialises its packet and passes it to \<open>sendEncrypted\<close>;
  \<open>send\<close> records the packet as written to the connection. The handlers ignore the
  \<open>int\<close> that a \<open>Send\<close> function returns.
\<close>

definition send :: "packet \<Rightarrow> 'k LoginClient \<Rightarrow> 'k LoginClient" where
  "send pkt client = client\<lparr>conn_sent := conn_sent client @ [pkt]\<rparr>"

subsection \<open>The \<open>Send\<close> functions\<close>

definition SendSecurity :: "'k LoginClient \<Rightarrow> u32 \<Rightarrow> u32 \<Rightarrow> 'k LoginClient" where
  "SendSecurity client errorCode gc = send (SecurityPacket errorCode gc) client"

definition SendOptions :: "'k LoginClient \<Rightarrow> u8 list \<Rightarrow> 'k handled" where
  "SendOptions client keyConfig =
     (if length keyConfig \<noteq> 420 then (Some Panic, client)
      else (None, send (OptionsPacket (guildcard client) (take 0x16C keyConfig)
                          (drop 0x16C keyConfig)) client))"

definition SendCharPreviewNone :: "'k LoginClient \<Rightarrow> u32 \<Rightarrow> 'k LoginClient" where
  "SendCharPreviewNone client slot = send (CharPreviewNonePacket slot) client"

definition SendChecksumAck :: "'k LoginClient \<Rightarrow> u32 \<Rightarrow> 'k LoginClient" where
  "SendChecksumAck client ack = send (ChecksumAckPacket ack) client"

definition SendGuildcardHeader :: "'k LoginClient \<Rightarrow> u32 \<Rightarrow> u16 \<Rightarrow> 'k LoginClient" where
  "SendGuildcardHeader client checksum dataLen =
     send (GuildcardHeaderPacket 0x00000001 dataLen checksum) client"

text \<open>
  \<open>SendGuildcardChunk\<close>: \<open>offset\<close> and \<open>remaining\<close> are \<open>uint16\<close>, so the product, the
  difference and the sum wrap at \<open>2^16\<close>. \<open>guildcardChunkData\<close> is the value assigned to
  \<open>pkt.Data\<close>, \<open>None\<close> where the slice expression panics.
\<close>

definition guildcardChunkData :: "u8 list \<Rightarrow> u16 \<Rightarrow> u32 \<Rightarrow> u8 list option" where
  "guildcardChunkData gcdata gcsize chunkNum =
     (let offset = (ucast chunkNum :: u16) * MaxChunkSize;
          remaining = gcsize - offset
      in if remaining > MaxChunkSize
         then slice gcdata (unat offset) (unat (offset + MaxChunkSize))
         else slice gcdata (unat offset) (length gcdata))"

definition SendGuildcardChunk :: "'k LoginClient \<Rightarrow> u32 \<Rightarrow> 'k handled" where
  "SendGuildcardChunk client chunkNum =
     (case guildcardChunkData (gcData client) (gcDataSize client) chunkNum of
        None \<Rightarrow> (Some Panic, client)
      | Some d \<Rightarrow> (None, send (GuildcardChunkPacket chunkNum d) client))"

definition SendParameterHeader :: "'k LoginClient \<Rightarrow> u32 \<Rightarrow> u8 list \<Rightarrow> 'k LoginClient" where
  "SendParameterHeader client numEntries entries =
     send (ParameterHeaderPacket numEntries entries) client"

definition SendParameterChunk :: "'k LoginClient \<Rightarrow> u8 list \<Rightarrow> u32 \<Rightarrow> 'k LoginClient" where
  "SendParameterChunk client chunkData chunk = send (ParameterChunkPacket chunk chunkData) client"


subsection \<open>The guildcard data of a player\<close>

record GuildcardEntry =
  Guildcard :: u32
  Name :: "u16 list"
  TeamName :: "u16 list"
  Description :: "u16 list"
  Reserved :: u8
  Language :: u8
  SectionID :: u8
  CharClass :: u8
  padding :: u32
  Comment :: "u16 list"

record GuildcardData =
  Unknown :: "u8 list"
  Blocked :: "u8 list"
  Unknown2 :: "u8 list"
  Entries :: "GuildcardEntry list"
  Unknown3 :: "u8 list"

text \<open>The zero values of the two structs, with the array lengths of their declarations.\<close>

definition new_GuildcardEntry :: GuildcardEntry where
  "new_GuildcardEntry =
     \<lparr>Guildcard = 0, Name = replicate 24 0, TeamName = replicate 16 0,
      Description = replicate 88 0, Reserved = 0, Language = 0, SectionID = 0, CharClass = 0,
      padding = 0, Comment = replicate 88 0\<rparr>"

definition new_GuildcardData :: GuildcardData where
  "new_GuildcardData =
     \<lparr>Unknown = replicate 0x114 0, Blocked = replicate 0x1DE8 0, Unknown2 = replicate 0x78 0,
      Entries = replicate 104 new_GuildcardEntry, Unknown3 = replicate 0x1BC 0\<rparr>"

definition BytesFromStruct_GuildcardEntry :: "GuildcardEntry \<Rightarrow> u8 list" where
  "BytesFromStruct_GuildcardEntry e =
     put_u32 (Guildcard e) @ concat (map put_u16 (Name e)) @ concat (map put_u16 (TeamName e))
       @ concat (map put_u16 (Description e))
       @ [Reserved e, Language e, SectionID e, CharClass e] @ put_u32 (padding e)
       @ concat (map put_u16 (Comment e))"

definition BytesFromStruct_GuildcardData :: "GuildcardData \<Rightarrow> u8 list" where
  "BytesFromStruct_GuildcardData d =
     Unknown d @ Blocked d @ Unknown2 d
       @ concat (map BytesFromStruct_GuildcardEntry (Entries d)) @ Unknown3 d"

text \<open>
  The loop \<open>for i := 0; rows.Next() && i < 140; i++\<close> of \<open>handleGuildcardDataStart\<close>.
  A row is \<open>None\<close> when \<open>rows.Scan\<close> returns an error; the result is \<open>None\<close> when the
  loop panics (an index outside \<open>Entries\<close>, or the error of \<open>Scan\<close>).
\<close>

fun scanGuildcardRows :: "gcRow option list \<Rightarrow> nat \<Rightarrow> GuildcardData \<Rightarrow> GuildcardData option" where
  "scanGuildcardRows [] i gc = Some gc"
| "scanGuildcardRows (r # rows) i gc =
     (if i < 140 then
        (if length (Entries gc) \<le> i then None
         else case r of
           None \<Rightarrow> None
         | Some row \<Rightarrow>
             scanGuildcardRows rows (Suc i)
               (gc\<lparr>Entries := (Entries gc)
                   [i := (Entries gc ! i)\<lparr>Guildcard := friend_gc row, Language := language row,
                          SectionID := section_id row, CharClass := char_class row\<rparr>]\<rparr>))
      else Some gc)"

subsection \<open>The handlers\<close>

definition handleCharLogin :: "'k env \<Rightarrow> 'k LoginClient \<Rightarrow> 'k handled" where
  "handleCharLogin env client =
     (case VerifyAccount env client of
        (Some err, client') \<Rightarrow> (Some err, client')
      | (None, client') \<Rightarrow>
          (None, SendSecurity client' (BBLoginErrorNone env) (guildcard client')))"

definition handleKeyConfig :: "'k env \<Rightarrow> 'k LoginClient \<Rightarrow> 'k handled" where
  "handleKeyConfig env client =
     (let optionData = replicate 420 (0 :: u8)
      in case queryKeyConfig env (guildcard client) of
           ErrNoRows \<Rightarrow>
             (let optionData' = copy (take 420 optionData) (BaseKeyConfig env) @ drop 420 optionData
              in if insertKeyConfig env (guildcard client) (take 420 optionData')
                 then SendOptions client optionData'
                 else (Some (Err ''DBError''), client))
         | QueryError \<Rightarrow> (Some (Err ''DBError''), client)
         | Row blob \<Rightarrow> SendOptions client blob)"

definition handleCharacterSelect :: "'k env \<Rightarrow> 'k LoginClient \<Rightarrow> 'k handled" where
  "handleCharacterSelect env client =
     (if length (recvData client) < 8 then (Some Panic, client)
      else case readCharPreviewRequest env (take 8 (recvData client)) of
        None \<Rightarrow> (Some Panic, client)
      | Some slot \<Rightarrow>
          (case queryCharacter env (guildcard client) slot of
             ErrNoRows \<Rightarrow> (None, SendCharPreviewNone client slot)
           | QueryError \<Rightarrow> (Some (Err ''DBError''), client)
           | Row u \<Rightarrow> (None, client)))"

definition handleGuildcardDataStart :: "'k env \<Rightarrow> 'k LoginClient \<Rightarrow> 'k handled" where
  "handleGuildcardDataStart env client =
     (case queryGuildcardEntries env (guildcard client) of
        None \<Rightarrow> (Some (Err ''DBError''), client)
      | Some rows \<Rightarrow>
          (case scanGuildcardRows rows 0 new_GuildcardData of
             None \<Rightarrow> (Some Panic, client)
           | Some gc \<Rightarrow>
               let bytes = BytesFromStruct_GuildcardData gc;
                   size = length bytes;
                   client1 = client\<lparr>gcData := bytes\<rparr>;
                   checksum = ChecksumIEEE (gcData client1);
                   client2 = client1\<lparr>gcDataSize := of_nat size\<rparr>
               in (None, SendGuildcardHeader client2 checksum (gcDataSize client2))))"

definition handleGuildcardChunk :: "'k env \<Rightarrow> 'k LoginClient \<Rightarrow> 'k handled" where
  "handleGuildcardChunk env client =
     (case readGuildcardChunkReq env (recvData client) of
        None \<Rightarrow> (Some Panic, client)
      | Some (ChunkRequested, Continue) \<Rightarrow>
          if Continue \<noteq> 0x01 then (None, client)
          else SendGuildcardChunk client ChunkRequested)"

definition handleCharacterUpdate :: "'k env \<Rightarrow> 'k LoginClient \<Rightarrow> 'k handled" where
  "handleCharacterUpdate env client =
     (if readCharPreview env (recvData client) then (None, client) else (Some Panic, client))"

subsection \<open>The dispatcher\<close>

definition processCharacterPacket :: "'k env \<Rightarrow> 'k LoginClient \<Rightarrow> 'k handled" where
  "processCharacterPacket env client =
     (case StructFromBytes_BBPktHeader (take BBHeaderSize (recvData client)) of
        None \<Rightarrow> (Some Panic, client)
      | Some pktHeader \<Rightarrow>
          if DebugMode env \<and> \<not> PrintPayload (recvData client) (uint (pktSize pktHeader))
          then (Some Panic, client)
          else if pktType pktHeader = LoginType (types env) then handleCharLogin env client
          else if pktType pktHeader = DisconnectType (types env) then (None, client)
          else if pktType pktHeader = OptionsRequestType (types env) then handleKeyConfig env client
          else if pktType pktHeader = CharPreviewReqType (types env)
            then handleCharacterSelect env client
          else if pktType pktHeader = ChecksumType (types env)
            then (None, SendChecksumAck client 1)
          else if pktType pktHeader = GuildcardReqType (types env)
            then handleGuildcardDataStart env client
          else if pktType pktHeader = GuildcardChunkReqType (types env)
            then handleGuildcardChunk env client
          else if pktType pktHeader = ParameterHeaderReqType (types env)
            then (None, SendParameterHeader client (of_nat (length paramFiles)) (paramHeaderData env))
          else if pktType pktHeader = ParameterChunkReqType (types env) then
            (case StructFromBytes_BBPktHeader (recvData client) of
               None \<Rightarrow> (Some Panic, client)
             | Some pkt \<Rightarrow>
                 (None, SendParameterChunk client
                          (case paramChunkData env (unat (pktFlags pkt)) of
                             None \<Rightarrow> [] | Some chunk \<Rightarrow> chunk)
                          (pktFlags pkt)))
          else if pktType pktHeader = SetFlagType (types env) then
            (case readSetFlag env (recvData client) of
               None \<Rightarrow> (Some Panic, client)
             | Some f \<Rightarrow> (None, client\<lparr>flag := f\<rparr>))
          else if pktType pktHeader = CharPreviewType (types env)
            then handleCharacterUpdate env client
          else (None, client))"


section \<open>The session loop of a CHARACTER client\<close>

text \<open>
  What the peer does, in order: it delivers bytes, closes its side (\<open>io.EOF\<close>), or the
  socket fails. \<open>conn_Read\<close> is \<open>conn.Read(buf)\<close> for a buffer of \<open>space\<close> bytes: with
  an empty buffer it returns \<open>(0, nil)\<close> at once, as the current Go library does; with
  nothing left to deliver it blocks (\<open>None\<close>); bytes that do not fit the buffer stay in
  the socket for the next read.
\<close>

datatype read_event = Bytes "u8 list" | EOF | ReadError

datatype read_err = NoErr | IoEOF | OtherErr

definition conn_Read ::
  "read_event list \<Rightarrow> nat \<Rightarrow> ((u8 list \<times> read_err) \<times> read_event list) option" where
  "conn_Read evs space =
     (if space = 0 then Some (([], NoErr), evs)
      else case evs of
        [] \<Rightarrow> None
      | Bytes bs # evs' \<Rightarrow>
          if length bs \<le> space then Some ((bs, NoErr), evs')
          else Some ((take space bs, NoErr), Bytes (drop space bs) # evs')
      | EOF # evs' \<Rightarrow> Some (([], IoEOF), evs')
      | ReadError # evs' \<Rightarrow> Some (([], OtherErr), evs'))"

text \<open>Writing \<open>new\<close> into a buffer in place, from index \<open>off\<close>.\<close>

definition overwrite :: "u8 list \<Rightarrow> nat \<Rightarrow> u8 list \<Rightarrow> u8 list" where
  "overwrite buf off new = take off buf @ new @ drop (off + length new) buf"

text \<open>The bytes a read stored at \<open>recvData[recvSize:]\<close>, and \<open>recvSize += bytes\<close>.\<close>

definition received :: "'k LoginClient \<Rightarrow> u8 list \<Rightarrow> 'k LoginClient" where
  "received client bs =
     client\<lparr>recvData := overwrite (recvData client) (recvSize client) bs,
            recvSize := recvSize client + length bs\<rparr>"

text \<open>\<open>client.clientCrypt.Decrypt(client.recvData[:BBHeaderSize], BBHeaderSize)\<close>.\<close>

definition decryptHeader :: "'k env \<Rightarrow> 'k LoginClient \<Rightarrow> 'k LoginClient" where
  "decryptHeader env client =
     (case Decrypt env (clientCrypt client) (take BBHeaderSize (recvData client)) of
        (plain, k) \<Rightarrow> client\<lparr>recvData := overwrite (recvData client) 0 plain, clientCrypt := k\<rparr>)"

text \<open>
  The decryption of the rest of the packet, \<open>recvData[BBHeaderSize:packetSize]\<close>;
  \<open>None\<close> when the slice expression panics.
\<close>

definition decryptBody :: "'k env \<Rightarrow> 'k LoginClient \<Rightarrow> 'k LoginClient option" where
  "decryptBody env client =
     (case slice (recvData client) BBHeaderSize (unat (packetSize client)) of
        None \<Rightarrow> None
      | Some body \<Rightarrow>
          (case Decrypt env (clientCrypt client) body of
             (plain, k) \<Rightarrow>
               Some (client\<lparr>recvData := overwrite (recvData client) BBHeaderSize plain,
                            clientCrypt := k\<rparr>)))"

text \<open>The end of an iteration: the buffer is cleared and the two cursors are reset.\<close>

definition resetFrame :: "'k LoginClient \<Rightarrow> 'k LoginClient" where
  "resetFrame client =
     client\<lparr>recvData := ZeroSlice (recvData client) (int (recvSize client)),
            recvSize := 0, packetSize := 0\<rparr>"

text \<open>
  The two inner loops of \<open>handleCharacterClient\<close>, one transition at a time.
  \<open>HeaderLoop\<close> is the loop \<open>for client.recvSize < BBHeaderSize\<close>, \<open>BodyLoop\<close> the loop
  \<open>for client.recvSize < int(client.packetSize)\<close> followed by the dispatch. The session
  ends with a status: the peer disconnected, a socket error, a panic, an error of the
  handler; or it is left blocked in a read (\<open>Waiting\<close>), or reading into a full buffer
  for ever (\<open>Spinning\<close>).
\<close>

datatype loop = HeaderLoop | BodyLoop

datatype status = Disconnected | SocketError | Panicked | HandlerError | Waiting | Spinning

definition headerStep ::
  "'k env \<Rightarrow> 'k LoginClient \<Rightarrow> read_event list
     \<Rightarrow> (loop \<times> 'k LoginClient \<times> read_event list) + (status \<times> 'k LoginClient)" where
  "headerStep env client evs =
     (if recvSize client < BBHeaderSize then
        (if length (recvData client) < recvSize client then Inr (Panicked, client)
         else case conn_Read evs (length (recvData client) - recvSize client) of
           None \<Rightarrow> Inr (Waiting, client)
         | Some ((bs, err), evs') \<Rightarrow>
             if bs = [] \<or> err = IoEOF then Inr (Disconnected, client\<lparr>conn_closed := True\<rparr>)
             else if err \<noteq> NoErr then Inr (SocketError, client)
             else
               let client1 = received client bs
               in if recvSize client1 \<ge> BBHeaderSize then
                    (let client2 = decryptHeader env client1
                     in case GetPacketSize (take 2 (recvData client2)) of
                          Inl e \<Rightarrow> Inr (Panicked, client2)
                        | Inr sz \<Rightarrow> Inl (HeaderLoop, client2\<lparr>packetSize := sz\<rparr>, evs'))
                  else Inl (HeaderLoop, client1, evs'))
      else Inl (BodyLoop, client, evs))"

definition dispatchFrame ::
  "'k env \<Rightarrow> 'k LoginClient \<Rightarrow> read_event list
     \<Rightarrow> (loop \<times> 'k LoginClient \<times> read_event list) + (status \<times> 'k LoginClient)" where
  "dispatchFrame env client evs =
     (case (if packetSize client > 8 then decryptBody env client else Some client) of
        None \<Rightarrow> Inr (Panicked, client)
      | Some client1 \<Rightarrow>
          (case processCharacterPacket env client1 of
             (Some Panic, client2) \<Rightarrow> Inr (Panicked, client2)
           | (Some (Err msg), client2) \<Rightarrow> Inr (HandlerError, client2)
           | (None, client2) \<Rightarrow> Inl (HeaderLoop, resetFrame client2, evs)))"

definition bodyStep ::
  "'k env \<Rightarrow> 'k LoginClient \<Rightarrow> read_event list
     \<Rightarrow> (loop \<times> 'k LoginClient \<times> read_event list) + (status \<times> 'k LoginClient)" where
  "bodyStep env client evs =
     (if recvSize client < unat (packetSize client) then
        (if length (recvData client) < recvSize client then Inr (Panicked, client)
         else if length (recvData client) = recvSize client then Inr (Spinning, client)
         else case conn_Read evs (length (recvData client) - recvSize client) of
           None \<Rightarrow> Inr (Waiting, client)
         | Some ((bs, err), evs') \<Rightarrow>
             if err \<noteq> NoErr then Inr (Panicked, client)
             else Inl (BodyLoop, received client bs, evs'))
      else dispatchFrame env client evs)"

definition step ::
  "'k env \<Rightarrow> loop \<Rightarrow> 'k LoginClient \<Rightarrow> read_event list
     \<Rightarrow> (loop \<times> 'k LoginClient \<times> read_event list) + (status \<times> 'k LoginClient)" where
  "step env l client evs =
     (case l of HeaderLoop \<Rightarrow> headerStep env client evs | BodyLoop \<Rightarrow> bodyStep env client evs)"

text \<open>What is left to read, and where the session stands: the measure of the loop.\<close>

fun pending :: "read_event list \<Rightarrow> nat" where
  "pending [] = 0"
| "pending (Bytes bs # evs) = Suc (length bs) + pending evs"
| "pending (e # evs) = Suc (pending evs)"

definition rank :: "loop \<Rightarrow> 'k LoginClient \<Rightarrow> nat" where
  "rank l client =
     (case l of HeaderLoop \<Rightarrow> (if recvSize client < BBHeaderSize then 0 else 2) | BodyLoop \<Rightarrow> 1)"

lemma conn_Read_pending:
  "conn_Read evs space = Some (r, evs') \<Longrightarrow> 0 < space \<Longrightarrow> pending evs' < pending evs"
  by (cases evs rule: pending.cases) (auto simp: conn_Read_def split: if_splits)

lemma step_decreases:
  "step env l client evs = Inl (l', client', evs')
     \<Longrightarrow> 3 * pending evs' + rank l' client' < 3 * pending evs + rank l client"
proof (cases l)
  case HeaderLoop
  assume s: "step env l client evs = Inl (l', client', evs')"
  show ?thesis
  proof (cases "recvSize client < BBHeaderSize")
    case True
    with s HeaderLoop obtain r where rd:
        "conn_Read evs (length (recvData client) - recvSize client) = Some (r, evs')"
      and nonempty: "fst r \<noteq> []"
      by (auto simp: step_def headerStep_def Let_def
          split: if_splits option.splits prod.splits sum.splits)
    have "0 < length (recvData client) - recvSize client"
    proof (rule ccontr)
      assume "\<not> 0 < length (recvData client) - recvSize client"
      then have "conn_Read evs (length (recvData client) - recvSize client) = Some (([], NoErr), evs)"
        by (simp add: conn_Read_def)
      with rd nonempty show False by auto
    qed
    from conn_Read_pending [OF rd this] have "pending evs' < pending evs" .
    moreover have "rank l' client' \<le> 2" by (simp add: rank_def split: loop.splits)
    ultimately show ?thesis by simp
  next
    case False
    with s HeaderLoop show ?thesis
      by (auto simp: step_def headerStep_def rank_def)
  qed
next
  case BodyLoop
  assume s: "step env l client evs = Inl (l', client', evs')"
  show ?thesis
  proof (cases "recvSize client < unat (packetSize client)")
    case True
    with s BodyLoop obtain r where rd:
        "conn_Read evs (length (recvData client) - recvSize client) = Some (r, evs')"
      and sp: "0 < length (recvData client) - recvSize client"
      by (auto simp: step_def bodyStep_def split: if_splits option.splits prod.splits)
    from conn_Read_pending [OF rd sp] have "pending evs' < pending evs" .
    moreover have "rank l' client' \<le> 2" by (simp add: rank_def split: loop.splits)
    ultimately show ?thesis by simp
  next
    case False
    with s BodyLoop have "evs' = evs" "l' = HeaderLoop" "recvSize client' = 0"
      by (auto simp: step_def bodyStep_def dispatchFrame_def resetFrame_def
          split: if_splits option.splits prod.splits failure.splits)
    then show ?thesis using BodyLoop by (simp add: rank_def BBHeaderSize_def)
  qed
qed

text \<open>
  \<open>handleCharacterClient\<close>: the loop runs until the session ends. The deferred function
  closes the connection whenever the function is left.
\<close>

function run :: "'k env \<Rightarrow> loop \<Rightarrow> 'k LoginClient \<Rightarrow> read_event list \<Rightarrow> status \<times> 'k LoginClient" where
  "run env l client evs =
     (case step env l client evs of
        Inl (l', client', evs') \<Rightarrow> run env l' client' evs'
      | Inr (st, client') \<Rightarrow>
          (st, if st = Waiting \<or> st = Spinning then client' else client'\<lparr>conn_closed := True\<rparr>))"
  by pat_completeness auto
termination
  by (relation "measure (\<lambda>(env, l, client, evs). 3 * pending evs + rank l client)")
    (auto dest: step_decreases)

definition handleCharacterClient ::
  "'k env \<Rightarrow> 'k LoginClient \<Rightarrow> read_event list \<Rightarrow> status \<times> 'k LoginClient" where
  "handleCharacterClient env client evs = run env HeaderLoop client evs"


text \<open>
  What holds of the client whenever the loop is about to take a transition: the received
  bytes lie in the buffer; once the header is there, \<open>packetSize\<close> is the size field
  in its first two bytes; and the second loop is entered with the header in the buffer.
\<close>

definition framed :: "loop \<Rightarrow> 'k LoginClient \<Rightarrow> bool" where
  "framed l client \<longleftrightarrow>
     recvSize client \<le> length (recvData client)
     \<and> (BBHeaderSize \<le> recvSize client \<longrightarrow>
          packetSize client = le_u16 (recvData client ! 0) (recvData client ! 1))
     \<and> (l = BodyLoop \<longrightarrow> BBHeaderSize \<le> recvSize client)"

section \<open>The timestamp packet\<close>

text \<open>
  \<open>time.Time.Format\<close> of the Go library, for layouts made of the reference numbers and
  literal characters (no month or weekday names, zones, fractions or \<open>_\<close> padding): the
  layout is scanned from the left; \<open>2006\<close> is the year, \<open>01\<close> and \<open>1\<close> the month,
  \<open>02\<close> and \<open>2\<close> the day, \<open>15\<close> the hour, \<open>03\<close> and \<open>3\<close> the hour on a 12-hour
  clock, \<open>04\<close> and \<open>4\<close> the minute, \<open>05\<close> and \<open>5\<close> the second, \<open>06\<close> the year in
  two digits; any other character is copied.
\<close>

record gotime =
  year :: nat
  month :: nat
  day :: nat
  hour :: nat
  minute :: nat
  second :: nat

fun decimal :: "nat \<Rightarrow> string" where
  "decimal n =
     (if n < 10 then [char_of (48 + n)] else decimal (n div 10) @ [char_of (48 + n mod 10)])"

text \<open>\<open>appendInt\<close>: decimal digits, padded with zeros on the left to \<open>width\<close>.\<close>

definition appendInt :: "nat \<Rightarrow> nat \<Rightarrow> string" where
  "appendInt x width = replicate (width - length (decimal x)) (CHR ''0'') @ decimal x"

definition hour12 :: "nat \<Rightarrow> nat" where
  "hour12 h = (if h mod 12 = 0 then 12 else h mod 12)"

function Format :: "gotime \<Rightarrow> string \<Rightarrow> string" where
  "Format t [] = []"
| "Format t (c # rest) =
     (if c = CHR ''2'' then
        (if take 3 rest = ''006'' then appendInt (year t) 4 @ Format t (drop 3 rest)
         else appendInt (day t) 0 @ Format t rest)
      else if c = CHR ''1'' then
        (if take 1 rest = ''5'' then appendInt (hour t) 2 @ Format t (drop 1 rest)
         else appendInt (month t) 0 @ Format t rest)
      else if c = CHR ''0'' then
        (if take 1 rest = ''1'' then appendInt (month t) 2 @ Format t (drop 1 rest)
         else if take 1 rest = ''2'' then appendInt (day t) 2 @ Format t (drop 1 rest)
         else if take 1 rest = ''3'' then appendInt (hour12 (hour t)) 2 @ Format t (drop 1 rest)
         else if take 1 rest = ''4'' then appendInt (minute t) 2 @ Format t (drop 1 rest)
         else if take 1 rest = ''5'' then appendInt (second t) 2 @ Format t (drop 1 rest)
         else if take 1 rest = ''6'' then appendInt (year t mod 100) 2 @ Format t (drop 1 rest)
         else c # Format t rest)
      else if c = CHR ''3'' then appendInt (hour12 (hour t)) 0 @ Format t rest
      else if c = CHR ''4'' then appendInt (minute t) 0 @ Format t rest
      else if c = CHR ''5'' then appendInt (second t) 0 @ Format t rest
      else c # Format t rest)"
  by pat_completeness auto
termination
  by (relation "measure (\<lambda>(t, layout). length layout)") auto

definition timeFmt :: string where
  "timeFmt = ''2006:01:02: 15:05:05''"

text \<open>
  \<open>SendTimestamp\<close>: the string copied into the packet, from the time \<open>now\<close> that
  \<open>time.Now()\<close> returns and the microseconds \<open>usec\<close> of \<open>syscall.Gettimeofday\<close>:
  \<open>fmt.Sprintf("%s.%03d", t, uint64(tv.Usec/1000))\<close>.
\<close>

definition SendTimestamp_stamp :: "gotime \<Rightarrow> nat \<Rightarrow> string" where
  "SendTimestamp_stamp now usec = Format now timeFmt @ ''.'' @ appendInt (usec div 1000) 3"

text \<open>
  The format as the spec words it, \<open>YYYY:MM:DD: HH:MM:SS.mmm\<close>, with the fields being
  the year, month, day, hour, minute, second and milliseconds.
\<close>

definition spec_timestamp :: "gotime \<Rightarrow> nat \<Rightarrow> string" where
  "spec_timestamp now usec =
     appendInt (year now) 4 @ '':'' @ appendInt (month now) 2 @ '':'' @ appendInt (day now) 2
       @ '': '' @ appendInt (hour now) 2 @ '':'' @ appendInt (minute now) 2 @ '':''
       @ appendInt (second now) 2 @ ''.'' @ appendInt (usec div 1000) 3"


section \<open>Reading the parameter cache\<close>

text \<open>
  The content of a parameter file as \<open>readFile\<close> returns it, the entries that the loop
  of \<open>loadParameterFiles\<close> serialises one after the other, and the chunks of a blob
  by index.
\<close>

definition parameterFile :: "(string \<Rightarrow> u8 list option) \<Rightarrow> string \<Rightarrow> u8 list" where
  "parameterFile readFile paramFile =
     (case readFile (''parameters/'' @ paramFile) of None \<Rightarrow> [] | Some data \<Rightarrow> data)"

fun headerOf :: "(string \<Rightarrow> u8 list option) \<Rightarrow> string list \<Rightarrow> nat \<Rightarrow> ParameterEntry list" where
  "headerOf readFile [] offset = []"
| "headerOf readFile (paramFile # rest) offset =
     newParameterEntry paramFile (parameterFile readFile paramFile) offset
       # headerOf readFile rest (offset + length (parameterFile readFile paramFile))"

definition chunksOf :: "u8 list \<Rightarrow> nat \<Rightarrow> u8 list option" where
  "chunksOf tmp j =
     (if j < length tmp div MAX_CHUNK_SIZE
      then Some (take MAX_CHUNK_SIZE (drop (j * MAX_CHUNK_SIZE) tmp))
      else if j = length tmp div MAX_CHUNK_SIZE \<and> 0 < length tmp mod MAX_CHUNK_SIZE
      then Some (drop (j * MAX_CHUNK_SIZE) tmp)
      else None)"

section \<open>The dispatch table and well-formed guildcard data\<close>

text \<open>The case labels of the \<open>switch\<close> in \<open>processCharacterPacket\<close>.\<close>

definition dispatchTable :: "pktTypes \<Rightarrow> u16 list" where
  "dispatchTable ty =
     [LoginType ty, DisconnectType ty, OptionsRequestType ty, CharPreviewReqType ty,
      ChecksumType ty, GuildcardReqType ty, GuildcardChunkReqType ty,
      ParameterHeaderReqType ty, ParameterChunkReqType ty, SetFlagType ty, CharPreviewType ty]"

text \<open>The array lengths that the declarations of the two guildcard structs fix.\<close>

definition wfGuildcardEntry :: "GuildcardEntry \<Rightarrow> bool" where
  "wfGuildcardEntry e \<longleftrightarrow>
     length (Name e) = 24 \<and> length (TeamName e) = 16 \<and> length (Description e) = 88
     \<and> length (Comment e) = 88"

definition wfGuildcardData :: "GuildcardData \<Rightarrow> bool" where
  "wfGuildcardData d \<longleftrightarrow>
     length (Unknown d) = 0x114 \<and> length (Blocked d) = 0x1DE8 \<and> length (Unknown2 d) = 0x78
     \<and> length (Entries d) = 104 \<and> length (Unknown3 d) = 0x1BC
     \<and> list_all wfGuildcardEntry (Entries d)"

section \<open>A server to run the examples on\<close>

text \<open>
  The packet types are those of the Blue Burst client; the sources at hand do not fix
  them, and the examples need no more than that they differ. The cipher of this server
  is the identity, its database is empty, and it decodes the requests with the header
  in the first 8 bytes and 32-bit fields after it: the chunk request as \<open>Unknown\<close>,
  \<open>ChunkRequested\<close>, \<open>Continue\<close>.
\<close>

definition bbTypes :: pktTypes where
  "bbTypes =
     \<lparr>LoginType = 0x93, DisconnectType = 0x05, OptionsRequestType = 0xE0,
      CharPreviewReqType = 0xE3, ChecksumType = 0x01E8, GuildcardReqType = 0x03E8,
      GuildcardChunkReqType = 0x03DC, ParameterHeaderReqType = 0x04EB,
      ParameterChunkReqType = 0x03EB, SetFlagType = 0xEC, CharPreviewType = 0xE5\<rparr>"

definition plainEnv :: "unit env" where
  "plainEnv =
     \<lparr>types = bbTypes, DebugMode = True, BBLoginErrorNone = 0,
      BaseKeyConfig = replicate 420 0,
      Decrypt = (\<lambda>k bs. (bs, k)),
      VerifyAccount = (\<lambda>client. (None, client)),
      queryKeyConfig = (\<lambda>gc. ErrNoRows),
      insertKeyConfig = (\<lambda>gc blob. True),
      queryCharacter = (\<lambda>gc slot. ErrNoRows),
      queryGuildcardEntries = (\<lambda>gc. Some []),
      readCharPreviewRequest = (\<lambda>bs. if length bs < 12 then None else Some (get_u32 (drop 8 bs))),
      readGuildcardChunkReq =
        (\<lambda>bs. if length bs < 20 then None else Some (get_u32 (drop 12 bs), get_u32 (drop 16 bs))),
      readSetFlag = (\<lambda>bs. if length bs < 12 then None else Some (get_u32 (drop 8 bs))),
      readCharPreview = (\<lambda>bs. True),
      paramHeaderData = [],
      paramChunkData = Map.empty\<rparr>"

definition newClient :: "unit LoginClient" where
  "newClient =
     \<lparr>ipAddr = ''127.0.0.1:5278'', clientCrypt = (), recvData = replicate 1024 0, recvSize = 0,
      packetSize = 0, guildcard = 0, flag = 0, gcData = [], gcDataSize = 0, conn_sent = [],
      conn_closed = False\<rparr>"

text \<open>A receive buffer that holds a guildcard chunk request.\<close>

definition chunkRequest :: "u32 \<Rightarrow> u32 \<Rightarrow> u8 list" where
  "chunkRequest c cont =
     [20, 0, 0xDC, 0x03, 0, 0, 0, 0, 0, 0, 0, 0] @ put_u32 c @ put_u32 cont @ replicate 1004 0"

text \<open>The client after \<open>handleGuildcardDataStart\<close> on this server.\<close>

definition stagedClient :: "unit LoginClient" where
  "stagedClient =
     newClient\<lparr>gcData := BytesFromStruct_GuildcardData new_GuildcardData, gcDataSize := 54672,
       conn_sent := [GuildcardHeaderPacket 1 54672
                       (ChecksumIEEE (BytesFromStruct_GuildcardData new_GuildcardData))]\<rparr>"

section \<open>Properties of the byte codec\<close>

subsection \<open>\<open>Utf8To16\<close> after \<open>ExpandUtf16\<close>\<close>

lemma push_bit_8_u8: "push_bit 8 (x :: u8) = 0"
  by (rule bit_word_eqI) (simp add: bit_push_bit_iff)

lemma ExpandUtf16_length: "length (ExpandUtf16 v) = 2 * length v"
  by (induction v) (simp_all add: ExpandUtf16_def)

lemma ExpandUtf16_nth_even: "i < length v \<Longrightarrow> ExpandUtf16 v ! (i * 2) = ucast (v ! i)"
proof (induction v arbitrary: i)
  case Nil
  then show ?case by simp
next
  case (Cons a v)
  show ?case
  proof (cases i)
    case 0
    then show ?thesis by (simp add: ExpandUtf16_def)
  next
    case (Suc j)
    with Cons show ?thesis by (simp add: ExpandUtf16_def)
  qed
qed

lemma ucast_ucast_low: "(ucast (ucast (x :: u16) :: u8) :: u16) = x AND 0xFF"
proof -
  have m: "(0xFF :: u16) = mask 8" by (simp add: mask_eq_exp_minus_1)
  have "(ucast (ucast x :: u8) :: u16) = take_bit 8 x"
    by (rule bit_word_eqI) (auto simp add: bit_ucast_iff bit_take_bit_iff)
  then show ?thesis unfolding m by (simp only: take_bit_eq_mask)
qed

text \<open>
  Claim C10. \<open>Utf8To16\<close> is meant to read its input as little-endian byte pairs, so that
  \<open>Utf8To16 (ExpandUtf16 v) = v\<close>. The code shifts the second byte as a \<open>uint8\<close>, which
  leaves 0: every output element is the even-index byte alone, and the round trip keeps
  only the low byte of each element. At \<open>v = [0x1234]\<close> the result is \<open>[0x34]\<close>.
\<close>

theorem Utf8To16_ExpandUtf16_low_bytes:
  "Utf8To16 (ExpandUtf16 [0x1234]) = [0x34]
   \<and> Utf8To16 (ExpandUtf16 v) = map (\<lambda>x. x AND 0xFF) v"
proof
  show "Utf8To16 (ExpandUtf16 [0x1234]) = [0x34]"
    by (simp add: Utf8To16_def ExpandUtf16_def)
next
  have "Utf8To16 (ExpandUtf16 v) = map (\<lambda>i. ucast (ExpandUtf16 v ! (i * 2))) [0 ..< length v]"
    by (simp add: Utf8To16_def ExpandUtf16_length push_bit_8_u8)
  also have "\<dots> = map (\<lambda>i. v ! i AND 0xFF) [0 ..< length v]"
    by (simp add: ExpandUtf16_nth_even ucast_ucast_low)
  also have "\<dots> = map (\<lambda>x. x AND 0xFF) v"
    by (rule nth_equalityI) simp_all
  finally show "Utf8To16 (ExpandUtf16 v) = map (\<lambda>x. x AND 0xFF) v" .
qed

section \<open>Properties of the timestamp\<close>

text \<open>
  Claim C8. The timestamp is meant to be \<open>YYYY:MM:DD: HH:MM:SS.mmm\<close>. The layout
  \<open>timeFmt\<close> names the second (\<open>05\<close>) where the minute (\<open>04\<close>) belongs, so the string
  that \<open>SendTimestamp\<close> builds holds the second twice and never the minute. At
  2014-03-09 17:42:08.123456 it is \<open>2014:03:09: 17:08:08.123\<close>, where the format of the
  spec gives \<open>2014:03:09: 17:42:08.123\<close>.
\<close>

theorem SendTimestamp_stamp_repeats_second:
  "SendTimestamp_stamp now usec =
     appendInt (year now) 4 @ '':'' @ appendInt (month now) 2 @ '':'' @ appendInt (day now) 2
       @ '': '' @ appendInt (hour now) 2 @ '':'' @ appendInt (second now) 2 @ '':''
       @ appendInt (second now) 2 @ ''.'' @ appendInt (usec div 1000) 3
   \<and> SendTimestamp_stamp
         \<lparr>year = 2014, month = 3, day = 9, hour = 17, minute = 42, second = 8\<rparr> 123456
       = ''2014:03:09: 17:08:08.123''
   \<and> spec_timestamp
         \<lparr>year = 2014, month = 3, day = 9, hour = 17, minute = 42, second = 8\<rparr> 123456
       = ''2014:03:09: 17:42:08.123''"
proof (intro conjI)
  show "SendTimestamp_stamp now usec =
     appendInt (year now) 4 @ '':'' @ appendInt (month now) 2 @ '':'' @ appendInt (day now) 2
       @ '': '' @ appendInt (hour now) 2 @ '':'' @ appendInt (second now) 2 @ '':''
       @ appendInt (second now) 2 @ ''.'' @ appendInt (usec div 1000) 3"
    by (simp add: SendTimestamp_stamp_def timeFmt_def)
next
  show "SendTimestamp_stamp
         \<lparr>year = 2014, month = 3, day = 9, hour = 17, minute = 42, second = 8\<rparr> 123456
       = ''2014:03:09: 17:08:08.123''"
    apply (simp add: SendTimestamp_stamp_def timeFmt_def appendInt_def)
    apply code_simp
    done
next
  show "spec_timestamp
         \<lparr>year = 2014, month = 3, day = 9, hour = 17, minute = 42, second = 8\<rparr> 123456
       = ''2014:03:09: 17:42:08.123''"
    apply (simp add: spec_timestamp_def appendInt_def)
    apply code_simp
    done
qed

section \<open>Properties of the debug print\<close>

declare PrintPayload_loop.simps [simp del]

text \<open>Within the buffer the debug print does not panic.\<close>

lemma PrintPayload_loop_within:
  "0 \<le> rem \<Longrightarrow> offset = pktLen - rem \<Longrightarrow> rem \<le> pktLen \<Longrightarrow> pktLen \<le> int (length data)
     \<Longrightarrow> PrintPayload_loop data pktLen rem offset"
proof (induction data pktLen rem offset rule: PrintPayload_loop.induct)
  case (1 data pktLen rem offset)
  show ?case
  proof (cases "rem > 0")
    case False
    then show ?thesis by (subst PrintPayload_loop.simps) simp
  next
    case True
    show ?thesis
    proof (cases "rem < displayWidth")
      case small: True
      have "PrintPayload_loop data pktLen (rem - displayWidth) (offset + displayWidth)"
        using small by (subst PrintPayload_loop.simps) simp
      moreover have "slice data (nat (pktLen - rem)) (nat pktLen) \<noteq> None"
        using "1.prems" by (simp add: slice_def) arith
      ultimately show ?thesis using True small by (subst PrintPayload_loop.simps) simp
    next
      case large: False
      have "PrintPayload_loop data pktLen (rem - displayWidth) (offset + displayWidth)"
        using "1.prems" large True by (intro "1.IH") (simp_all add: displayWidth_def)
      moreover have "slice data (nat offset) (nat (offset + displayWidth)) \<noteq> None"
        using "1.prems" large by (simp add: slice_def displayWidth_def) arith
      ultimately show ?thesis using True large by (subst PrintPayload_loop.simps) simp
    qed
  qed
qed

lemma PrintPayload_within: "n \<le> length data \<Longrightarrow> PrintPayload data (int n)"
  by (simp add: PrintPayload_def PrintPayload_loop_within)

section \<open>Properties of the send path\<close>

subsection \<open>The padding loop\<close>

declare fixLength_loop.simps [simp del]

lemma fixLength_loop_pads:
  "\<exists>k. fixLength_loop data len h = (data @ replicate k 0, len + of_nat k)"
proof (induction data len h rule: fixLength_loop.induct)
  case (1 data len hdrSize)
  show ?case
  proof (cases "len mod hdrSize \<noteq> 0")
    case True
    from 1 [OF True] obtain k where
      k: "fixLength_loop (data @ [0]) (len + 1) hdrSize = ((data @ [0]) @ replicate k 0, len + 1 + of_nat k)"
      by blast
    have "fixLength_loop data len hdrSize = (data @ replicate (Suc k) 0, len + of_nat (Suc k))"
      using True k by (subst fixLength_loop.simps) (simp add: add.assoc)
    then show ?thesis by blast
  next
    case False
    then have "fixLength_loop data len hdrSize = (data @ replicate 0 0, len + of_nat 0)"
      by (subst fixLength_loop.simps) simp
    then show ?thesis by blast
  qed
qed

lemma fixLength_loop_multiple: "snd (fixLength_loop data len h) mod h = 0"
proof (induction data len h rule: fixLength_loop.induct)
  case (1 data len hdrSize)
  show ?case
  proof (cases "len mod hdrSize \<noteq> 0")
    case True
    with 1 [OF True] show ?thesis by (subst fixLength_loop.simps) simp
  next
    case False
    then show ?thesis by (subst fixLength_loop.simps) simp
  qed
qed

lemma unat_u16_bound: "unat (w :: u16) < 65536"
  using unsigned_less [of w, where ?'a = nat] by simp

lemma u16_mod_nonzero: "(len :: u16) mod h \<noteq> 0 \<longleftrightarrow> unat len mod unat h \<noteq> 0"
proof -
  have "unat (len mod h) = unat len mod unat h" by (rule unat_mod)
  then show ?thesis by (simp add: unat_0_iff [symmetric])
qed

lemma u16_unat_Suc: "unat (len :: u16) + 1 < 65536 \<Longrightarrow> unat (len + 1) = unat len + 1"
proof -
  assume "unat len + 1 < 65536"
  then have "unat len + unat (1 :: u16) < 2 ^ LENGTH(16)" by simp
  then have "unat (len + 1) = unat len + unat (1 :: u16)" by (rule unat_add_lem [THEN iffD1])
  then show ?thesis by simp
qed

lemma fixLength_loop_nowrap:
  "unat len \<le> m \<Longrightarrow> m mod unat h = 0 \<Longrightarrow> m < 65536 \<Longrightarrow>
     \<exists>k. fixLength_loop data len h = (data @ replicate k 0, of_nat (unat len + k))
       \<and> unat len + k \<le> m \<and> (unat len + k) mod unat h = 0"
proof (induction data len h rule: fixLength_loop.induct)
  case (1 data len hdrSize)
  show ?case
  proof (cases "len mod hdrSize \<noteq> 0")
    case True
    then have nm: "unat len mod unat hdrSize \<noteq> 0" by (simp add: u16_mod_nonzero)
    have "unat len \<noteq> m" using nm "1.prems"(2) by auto
    with "1.prems"(1) have lt: "unat len < m" by simp
    then have "unat len + 1 < 65536" using "1.prems"(3) by simp
    then have u: "unat (len + 1) = unat len + 1" by (rule u16_unat_Suc)
    from lt u have le: "unat (len + 1) \<le> m" by simp
    from "1.IH" [OF True le "1.prems"(2) "1.prems"(3)] obtain k where
      kk: "fixLength_loop (data @ [0]) (len + 1) hdrSize
            = ((data @ [0]) @ replicate k 0, of_nat (unat (len + 1) + k))
          \<and> unat (len + 1) + k \<le> m \<and> (unat (len + 1) + k) mod unat hdrSize = 0" ..
    then have k: "fixLength_loop (data @ [0]) (len + 1) hdrSize
            = ((data @ [0]) @ replicate k 0, of_nat (unat (len + 1) + k))"
      and b: "unat (len + 1) + k \<le> m" "(unat (len + 1) + k) mod unat hdrSize = 0"
      by simp_all
    have "fixLength_loop data len hdrSize = (data @ replicate (Suc k) 0, of_nat (unat len + Suc k))"
      using True k u by (subst fixLength_loop.simps) simp
    moreover have "unat len + Suc k \<le> m" "(unat len + Suc k) mod unat hdrSize = 0"
      using b u by simp_all
    ultimately show ?thesis by (intro exI [of _ "Suc k"] conjI)
  next
    case False
    then have z: "unat len mod unat hdrSize = 0" using u16_mod_nonzero [of len hdrSize] by simp
    have "fixLength_loop data len hdrSize = (data @ replicate 0 0, of_nat (unat len + 0))"
      using False by (subst fixLength_loop.simps) simp
    moreover have "unat len + 0 \<le> m" "(unat len + 0) mod unat hdrSize = 0"
      using z "1.prems"(1) by simp_all
    ultimately show ?thesis by (intro exI [of _ 0] conjI)
  qed
qed

subsection \<open>The frame of \<open>fixLength\<close>\<close>

lemma bit_255: "n < 8 \<Longrightarrow> bit (255 :: int) n"
proof -
  have "(255 :: int) = mask 8" by (simp add: mask_eq_exp_minus_1)
  then show "n < 8 \<Longrightarrow> bit (255 :: int) n" by (simp only: bit_mask_iff) simp
qed

lemma stamp_lo: "(ucast ((len :: u16) AND 0xFF) :: u8) = ucast len"
  by (rule bit_word_eqI) (auto simp add: bit_ucast_iff bit_and_iff bit_255)

lemma stamp_hi: "(ucast (drop_bit 8 ((len :: u16) AND 0xFF00)) :: u8) = ucast (drop_bit 8 len)"
  by (rule bit_word_eqI) (auto simp add: bit_ucast_iff bit_and_iff bit_drop_bit_eq bit_255)

lemma stamp_hi': "(ucast (drop_bit 8 (len :: u16) AND 0xFF) :: u8) = ucast (drop_bit 8 len)"
  by (rule bit_word_eqI) (auto simp add: bit_ucast_iff bit_and_iff bit_drop_bit_eq bit_255)

lemma fixLength_Inr:
  "fixLength data len h = Inr (data', len') \<Longrightarrow>
     \<exists>k. data' = (data @ replicate k 0)[0 := ucast len', 1 := ucast (drop_bit 8 len')]
       \<and> 2 \<le> length data + k \<and> len' = len + of_nat k \<and> len' mod h = 0 \<and> h \<noteq> 0"
proof -
  assume a: "fixLength data len h = Inr (data', len')"
  obtain k where k: "fixLength_loop data len h = (data @ replicate k 0, len + of_nat k)"
    using fixLength_loop_pads [of data len h] ..
  have m: "snd (fixLength_loop data len h) mod h = 0" by (rule fixLength_loop_multiple)
  from a k m show ?thesis
    by (intro exI [of _ k]) (auto simp: fixLength_def stamp_lo stamp_hi split: if_splits)
qed


lemma quantum_multiple:
  "q = 4 \<or> q = 8 \<Longrightarrow> n + q \<le> 65536 \<Longrightarrow>
     n \<le> ((n + q - 1) div q) * q \<and> ((n + q - 1) div q) * q mod q = 0
     \<and> ((n + q - 1) div q) * q < 65536 \<and> ((n + q - 1) div q) * q < n + (q :: nat)"
  by (erule disjE) (simp_all, presburger+)

lemma hi_byte_zero: "unat (w :: u16) < 256 \<Longrightarrow> (ucast (drop_bit 8 w) :: u8) = 0"
proof -
  assume "unat w < 256"
  then have "unat w div 2 ^ 8 = 0" by simp
  then have "drop_bit 8 (unat w) = 0" by (simp only: drop_bit_eq_div)
  then have "unat (drop_bit 8 w) = 0" by (simp only: unat_drop_bit_eq)
  then have "drop_bit 8 w = 0" by (simp only: unat_0_iff)
  then show ?thesis by simp
qed

text \<open>
  Claim C4, as the code has it. For a record of \<open>L\<close> bytes, \<open>1 \<le> L\<close>, passed with its
  length to \<open>fixLength\<close> with the quantum 4 or 8, where \<open>L\<close> rounded up to the quantum
  still fits 16 bits: the frame that \<open>sendPacket\<close> writes is the whole padded buffer, its
  length is a multiple of the quantum, less than a quantum was appended, every appended
  byte is zero, and its first two bytes are its length, little-endian. \<open>sendEncrypted\<close>
  writes this frame, encrypted, when the cipher keeps the length.
\<close>

theorem fixLength_frame:
  assumes len: "length data = unat len" and ne: "data \<noteq> []"
    and q: "hdrSize = 4 \<or> hdrSize = 8" and fit: "unat len + unat hdrSize \<le> 65536"
  shows "\<exists>data' len'. fixLength data len hdrSize = Inr (data', len')
     \<and> sendPacket data' len' = Inr data'
     \<and> length data' mod unat hdrSize = 0
     \<and> length data' < length data + unat hdrSize
     \<and> (\<forall>i. length data \<le> i \<and> i < length data' \<longrightarrow> data' ! i = 0)
     \<and> take 2 data' = put_u16 (of_nat (length data'))
     \<and> (length (encrypt data') = length data' \<longrightarrow>
          sendEncrypted debugMode encrypt hdrSize data len = Inr (encrypt data'))"
proof -
  define n where "n = unat len"
  define qn where "qn = unat hdrSize"
  define m where "m = ((n + qn - 1) div qn) * qn"
  from q have qn: "qn = 4 \<or> qn = 8" by (auto simp: qn_def)
  from quantum_multiple [OF qn, of n] fit
  have m: "n \<le> m" "m mod qn = 0" "m < 65536" "m < n + qn"
    by (simp_all add: m_def n_def qn_def)
  from fixLength_loop_nowrap [of len m hdrSize data] m obtain k where
    kk: "fixLength_loop data len hdrSize = (data @ replicate k 0, of_nat (unat len + k))
       \<and> unat len + k \<le> m \<and> (unat len + k) mod unat hdrSize = 0"
    unfolding n_def qn_def by auto
  define len' :: u16 where "len' = of_nat (n + k)"
  define raw where "raw = data @ replicate k (0 :: u8)"
  define data' where "data' = raw[0 := ucast (len' AND 0xFF), 1 := ucast (drop_bit 8 (len' AND 0xFF00))]"
  from kk have loop: "fixLength_loop data len hdrSize = (raw, len')"
    and le: "n + k \<le> m" and md: "(n + k) mod qn = 0"
    by (simp_all add: n_def qn_def len'_def raw_def)
  have "0 < length data" using ne by simp
  then have npos: "0 < n" unfolding n_def len .
  have lraw: "length raw = n + k" using len by (simp add: raw_def n_def)
  have ldata': "length data' = n + k" by (simp add: data'_def lraw)
  have ge: "qn \<le> n + k"
  proof (rule ccontr)
    assume "\<not> qn \<le> n + k"
    then have "(n + k) mod qn = n + k" by simp
    with md npos show False by simp
  qed
  then have two: "2 \<le> n + k" using qn by auto
  have h0: "hdrSize \<noteq> 0" using q by auto
  have fl: "fixLength data len hdrSize = Inr (data', len')"
    using loop two h0 by (simp add: fixLength_def data'_def lraw)
  have "unat (of_nat (n + k) :: u16) = (n + k) mod 2 ^ LENGTH(16)" by (rule unat_of_nat)
  moreover have "(n + k) mod 2 ^ LENGTH(16) = n + k" using le m(3) by simp
  ultimately have ulen': "unat len' = n + k" unfolding len'_def by (rule trans)
  have sp: "sendPacket data' len' = Inr data'"
    by (simp add: sendPacket_def ulen' ldata')
  have pad: "data' ! i = 0" if "length data \<le> i" "i < length data'" for i
  proof (cases "i = 1")
    case True
    with that(1) npos len have "n = 1" by (simp add: n_def)
    then have "m = qn" using qn by (auto simp: m_def)
    with le qn have "n + k < 256" by auto
    with ulen' have "(ucast (drop_bit 8 len') :: u8) = 0" by (simp add: hi_byte_zero)
    with True that(2) show ?thesis
      by (simp add: data'_def stamp_hi' lraw ldata')
  next
    case False
    with that npos len have i2: "2 \<le> i" by (simp add: n_def)
    then have "data' ! i = raw ! i" by (simp add: data'_def)
    also have "\<dots> = 0" using that ldata' len by (simp add: raw_def nth_append n_def)
    finally show ?thesis .
  qed
  have stamp: "take 2 data' = put_u16 (of_nat (length data'))"
  proof -
    obtain a b rest where r: "raw = a # b # rest"
      using two lraw by (cases raw; cases "tl raw") auto
    have "take 2 data' = put_u16 len'"
      by (simp add: data'_def r put_u16_def stamp_lo stamp_hi stamp_hi')
    moreover have "(of_nat (length data') :: u16) = len'" by (simp only: ldata' len'_def)
    ultimately show ?thesis by (simp only:)
  qed
  have short: "length data' < length data + unat hdrSize"
    using le m(4) ldata' len by (simp add: n_def qn_def)
  have mult: "length data' mod unat hdrSize = 0"
    using md ldata' by (simp add: qn_def)
  have pad': "\<forall>i. length data \<le> i \<and> i < length data' \<longrightarrow> data' ! i = 0"
    using pad by simp
  have "PrintPayload data' (int (length data'))" by (rule PrintPayload_within) simp
  moreover have "uint len' = int (length data')" by (simp only: uint_nat ulen' ldata')
  ultimately have dbg: "PrintPayload data' (uint len')" by (simp only:)
  have enc: "length (encrypt data') = length data' \<longrightarrow>
      sendEncrypted debugMode encrypt hdrSize data len = Inr (encrypt data')"
    using dbg by (simp add: sendEncrypted_def fl sendPacket_def ulen' ldata')
  from fl sp mult short pad' stamp enc show ?thesis
    by (intro exI [of _ data'] exI [of _ len'] conjI)
qed

theorem fixLength_frame_witness:
  "length [0, 0, 0xE8, 0x02, 0, 0, 0, 0, 1, 0, 0, 0 :: u8] = unat (12 :: u16)
   \<and> fixLength [0, 0, 0xE8, 0x02, 0, 0, 0, 0, 1, 0, 0, 0] 12 8
     = Inr ([16, 0, 0xE8, 0x02, 0, 0, 0, 0, 1, 0, 0, 0, 0, 0, 0, 0], 16)
   \<and> sendPacket [16, 0, 0xE8, 0x02, 0, 0, 0, 0, 1, 0, 0, 0, 0, 0, 0, 0] 16
     = Inr [16, 0, 0xE8, 0x02, 0, 0, 0, 0, 1, 0, 0, 0, 0, 0, 0, 0]"
  using fixLength_frame [of "[0, 0, 0xE8, 0x02, 0, 0, 0, 0, 1, 0, 0, 0]" 12 8]
  by (simp add: fixLength_def fixLength_loop.simps sendPacket_def)

text \<open>
  Claim C4 as stated, for every length, fails at both ends. On an empty buffer
  \<open>fixLength\<close> panics at \<open>data[0]\<close>. On a record of 65535 bytes with the quantum 8 the
  \<open>uint16\<close> length wraps to 0: the buffer has 65536 bytes, its first two bytes say 0,
  and the frame \<open>pkt[:0]\<close> that \<open>sendPacket\<close> writes is empty.
\<close>

theorem fixLength_frame_counterexample:
  "fixLength [] 0 8 = Inl Panic
   \<and> length (replicate 65535 (1 :: u8)) = unat (65535 :: u16)
   \<and> fixLength (replicate 65535 1) 65535 8 = Inr ((replicate 65535 1 @ [0])[0 := 0, 1 := 0], 0)
   \<and> sendPacket ((replicate 65535 1 @ [0])[0 := 0, 1 := 0]) 0 = Inr []"
  by (simp add: fixLength_def fixLength_loop.simps sendPacket_def)

subsection \<open>Padding and \<open>StripPadding\<close>\<close>

lemma StripPadding_loop_tail:
  "x \<noteq> 0 \<Longrightarrow> j \<le> k \<Longrightarrow>
     StripPadding_loop (p @ x # replicate k 0) (Suc (length p) + j) = p @ [x]"
proof (induction j)
  case 0
  then show ?case by simp
next
  case (Suc j)
  then have "(p @ x # replicate k 0) ! (Suc (length p) + j) = 0"
    by (simp add: nth_append)
  with Suc show ?case by simp
qed

lemma StripPadding_tail: "x \<noteq> 0 \<Longrightarrow> StripPadding (p @ x # replicate k 0) = p @ [x]"
  using StripPadding_loop_tail [of x k k p] by (simp add: StripPadding_def)

lemma StripPadding_loop_zeros: "j \<le> k \<Longrightarrow> StripPadding_loop (replicate k 0) j = replicate k 0"
  by (induction j) simp_all

lemma StripPadding_zeros: "StripPadding (replicate k 0) = replicate k 0"
  by (simp add: StripPadding_def StripPadding_loop_zeros)

lemma stamped_shape:
  "2 \<le> length data \<Longrightarrow>
     (data @ replicate k 0)[0 := a, 1 := b] = [a, b] @ drop 2 data @ replicate k 0"
proof -
  assume l: "2 \<le> length data"
  then obtain c d rest where "data = c # d # rest"
    by (cases data; cases "tl data") auto
  then show ?thesis by simp
qed

text \<open>
  Claim C9, as the code has it. The bytes that \<open>fixLength\<close> appends are zero: the frame
  is the record with its first two bytes replaced by the length, followed by zeros. On a
  slice that holds a non-zero byte, \<open>StripPadding\<close> returns the prefix that ends at the
  last non-zero byte. So stripping the frame of a record whose last byte is not zero
  yields the record with the length in its first two bytes; trailing zeros of the record
  itself are not told apart from the padding.
\<close>

theorem StripPadding_fixLength:
  "(x \<noteq> 0 \<longrightarrow> StripPadding (p @ x # replicate k 0) = p @ [x])
   \<and> (fixLength data len h = Inr (data', len') \<and> 2 \<le> length data \<longrightarrow>
        (\<exists>j. data' = put_u16 len' @ drop 2 data @ replicate j 0)
        \<and> (2 < length data \<and> last data \<noteq> 0 \<longrightarrow>
             StripPadding data' = put_u16 len' @ drop 2 data))"
proof (intro conjI impI)
  assume "x \<noteq> 0"
  then show "StripPadding (p @ x # replicate k 0) = p @ [x]" by (rule StripPadding_tail)
next
  assume "fixLength data len h = Inr (data', len') \<and> 2 \<le> length data"
  then have fl: "fixLength data len h = Inr (data', len')" and two: "2 \<le> length data"
    by simp_all
  from fixLength_Inr [OF fl] obtain j where
    "data' = (data @ replicate j 0)[0 := ucast len', 1 := ucast (drop_bit 8 len')]
       \<and> 2 \<le> length data + j \<and> len' = len + of_nat j \<and> len' mod h = 0 \<and> h \<noteq> 0" ..
  then have d: "data' = put_u16 len' @ drop 2 data @ replicate j 0"
    using stamped_shape [OF two, of j "ucast len'" "ucast (drop_bit 8 len')"]
    by (simp add: put_u16_def)
  then show "\<exists>j. data' = put_u16 len' @ drop 2 data @ replicate j 0" ..
  show "StripPadding data' = put_u16 len' @ drop 2 data"
    if "2 < length data \<and> last data \<noteq> 0"
  proof -
    from that have long: "2 < length data" and nz: "last data \<noteq> 0" by simp_all
    from long have ne: "drop 2 data \<noteq> []" by simp
    have "last (drop 2 data) = last data" using long by (simp add: last_drop)
    then have e: "drop 2 data = butlast (drop 2 data) @ [last data]"
      using append_butlast_last_id [OF ne] by simp
    have "data' = (put_u16 len' @ butlast (drop 2 data)) @ last data # replicate j 0"
      by (subst d, subst e) simp
    then have "StripPadding data' = (put_u16 len' @ butlast (drop 2 data)) @ [last data]"
      using StripPadding_tail [OF nz, of "put_u16 len' @ butlast (drop 2 data)" j]
      by (simp only:)
    also have "\<dots> = put_u16 len' @ drop 2 data" by (subst (2) e) simp
    finally show ?thesis .
  qed
qed

theorem StripPadding_fixLength_witness:
  "StripPadding ([1, 2] @ 5 # replicate 3 0) = [1, 2] @ [5]
   \<and> fixLength [0, 0, 5, 0, 1] 5 4 = Inr ([8, 0, 5, 0, 1, 0, 0, 0], 8)
   \<and> StripPadding [8, 0, 5, 0, 1, 0, 0, 0] = put_u16 8 @ drop 2 [0, 0, 5, 0, 1]"
proof -
  have fl: "fixLength [0, 0, 5, 0, 1] 5 4 = Inr ([8, 0, 5, 0, 1, 0, 0, 0], 8)"
    by (simp add: fixLength_def fixLength_loop.simps)
  show ?thesis
    using StripPadding_fixLength [of 5 "[1, 2]" 3 "[0, 0, 5, 0, 1]" 5 4 "[8, 0, 5, 0, 1, 0, 0, 0]" 8] fl
    by simp
qed

text \<open>
  Claim C9 as stated fails. A record of 12 bytes with type \<open>0x02E8\<close> whose last field is
  the 32-bit value 1 ends in three zero bytes: its frame of 16 bytes is stripped to 9
  bytes, which are neither the 12 bytes of the record nor begin with its first two bytes.
  And a slice of zeros only, which has no last non-zero byte, is returned whole.
\<close>

theorem StripPadding_roundtrip_counterexample:
  "fixLength [0, 0, 0xE8, 0x02, 0, 0, 0, 0, 1, 0, 0, 0] 12 8
     = Inr ([16, 0, 0xE8, 0x02, 0, 0, 0, 0, 1, 0, 0, 0, 0, 0, 0, 0], 16)
   \<and> StripPadding [16, 0, 0xE8, 0x02, 0, 0, 0, 0, 1, 0, 0, 0, 0, 0, 0, 0]
     = [16, 0, 0xE8, 0x02, 0, 0, 0, 0, 1]
   \<and> StripPadding [0, 0] = [0, 0]"
  by (simp add: fixLength_def fixLength_loop.simps StripPadding_def)


section \<open>Properties of the dispatcher\<close>

subsection \<open>Unknown packet types\<close>

text \<open>
  Claim C7. A packet in the receive buffer whose type is none of the case labels, and
  whose size field does not exceed the buffer (as for every frame the session loop
  dispatches; the debug print reads that many bytes): \<open>processCharacterPacket\<close> returns
  no error and the client, with everything it holds and everything written to its
  connection, is as before.
\<close>

theorem processCharacterPacket_unknown:
  assumes hdr: "StructFromBytes_BBPktHeader (take BBHeaderSize (recvData client)) = Some h"
    and unknown: "pktType h \<notin> set (dispatchTable (types env))"
    and inbuf: "unat (pktSize h) \<le> length (recvData client)"
  shows "processCharacterPacket env client = (None, client)"
proof -
  have "PrintPayload (recvData client) (uint (pktSize h))"
    using PrintPayload_within [OF inbuf] by simp
  with hdr unknown show ?thesis
    by (simp add: processCharacterPacket_def dispatchTable_def)
qed

theorem processCharacterPacket_unknown_witness:
  "processCharacterPacket plainEnv
      (newClient\<lparr>recvData := [8, 0, 0xFF, 0xFF, 0, 0, 0, 0] @ replicate 1016 0,
                 recvSize := 8, packetSize := 8\<rparr>)
     = (None, newClient\<lparr>recvData := [8, 0, 0xFF, 0xFF, 0, 0, 0, 0] @ replicate 1016 0,
                 recvSize := 8, packetSize := 8\<rparr>)"
  using processCharacterPacket_unknown [of
      "newClient\<lparr>recvData := [8, 0, 0xFF, 0xFF, 0, 0, 0, 0] @ replicate 1016 0,
                 recvSize := 8, packetSize := 8\<rparr>"
      "\<lparr>pktSize = 8, pktType = 0xFFFF, pktFlags = 0\<rparr>" plainEnv]
  by (simp add: newClient_def plainEnv_def bbTypes_def dispatchTable_def BBHeaderSize_def
      StructFromBytes_BBPktHeader_def le_u16_def get_u32_def)

section \<open>Properties of the guildcard chunks\<close>

subsection \<open>A chunk within the blob\<close>

lemma unat_MaxChunkSize: "unat MaxChunkSize = 26624"
  by (simp add: MaxChunkSize_def)

lemma chunk_offset:
  assumes "unat c * 26624 < 65536"
  shows "unat ((ucast (c :: u32) :: u16) * MaxChunkSize) = unat c * 26624"
proof -
  from assms have small: "unat c < 65536" by simp
  have "unat (ucast c :: u16) = take_bit LENGTH(16) (unat c)" by (rule unsigned_ucast_eq)
  also have "\<dots> = unat c mod 65536" by (simp add: take_bit_eq_mod)
  also have "\<dots> = unat c" using small by simp
  finally have u: "unat (ucast c :: u16) = unat c" .
  have "unat (ucast c :: u16) * unat MaxChunkSize < 2 ^ LENGTH(16)"
    using assms by (simp add: u unat_MaxChunkSize)
  then have "unat ((ucast c :: u16) * MaxChunkSize) = unat (ucast c :: u16) * unat MaxChunkSize"
    by (rule unat_mult_lem [THEN iffD1])
  then show ?thesis by (simp add: u unat_MaxChunkSize)
qed

lemma guildcardChunkData_in_range:
  assumes sz: "unat gcsize = length gcdata" and inr: "unat c * 26624 < length gcdata"
  shows "guildcardChunkData gcdata gcsize c
     = Some (take (min (length gcdata - unat c * 26624) 26624) (drop (unat c * 26624) gcdata))"
proof -
  define off where "off = unat c * 26624"
  define offset :: u16 where "offset = ucast c * MaxChunkSize"
  define n where "n = length gcdata"
  have n: "n < 65536" using unat_u16_bound [of gcsize] sz by (simp add: n_def)
  have offn: "off < n" using inr by (simp add: off_def n_def)
  have uoff: "unat offset = off"
    unfolding offset_def off_def using offn n by (intro chunk_offset) (simp add: off_def)
  have le: "offset \<le> gcsize" using uoff offn sz by (simp add: word_le_nat_alt n_def)
  have urem: "unat (gcsize - offset) = n - off"
    using unat_sub [OF le] uoff sz by (simp add: n_def)
  show ?thesis
  proof (cases "gcsize - offset > MaxChunkSize")
    case True
    then have big: "26624 < n - off" by (simp add: word_less_nat_alt urem unat_MaxChunkSize)
    then have "unat offset + unat MaxChunkSize < 2 ^ LENGTH(16)"
      using n by (simp add: uoff unat_MaxChunkSize)
    then have "unat (offset + MaxChunkSize) = unat offset + unat MaxChunkSize"
      by (rule unat_add_lem [THEN iffD1])
    then have uhi: "unat (offset + MaxChunkSize) = off + 26624"
      by (simp add: uoff unat_MaxChunkSize)
    have "guildcardChunkData gcdata gcsize c = slice gcdata off (off + 26624)"
      using True by (simp add: guildcardChunkData_def Let_def offset_def [symmetric] uoff uhi)
    also have "\<dots> = Some (take 26624 (drop off gcdata))"
      using big by (simp add: slice_def n_def)
    also have "min (n - off) 26624 = 26624" using big by simp
    ultimately show ?thesis by (simp add: off_def n_def)
  next
    case False
    then have small: "n - off \<le> 26624" by (simp add: word_less_nat_alt urem unat_MaxChunkSize)
    have "guildcardChunkData gcdata gcsize c = slice gcdata off (length gcdata)"
      using False by (simp add: guildcardChunkData_def Let_def offset_def [symmetric] uoff)
    also have "\<dots> = Some (take (n - off) (drop off gcdata))"
      using offn by (simp add: slice_def n_def)
    also have "min (n - off) 26624 = n - off" using small by simp
    ultimately show ?thesis by (simp add: off_def n_def)
  qed
qed


text \<open>
  Claim C5, as the code has it. A chunk request with \<open>Continue\<close> other than 1 sends
  nothing. A request with \<open>Continue = 1\<close> for a chunk that starts inside the staged blob
  (whose size is \<open>gcDataSize\<close>) is answered with the slice from \<open>c * MaxChunkSize\<close> of
  length \<open>min(gcDataSize - offset, MaxChunkSize)\<close>. Nothing is said of a request past
  the end of the blob.
\<close>

theorem handleGuildcardChunk_serves:
  assumes req: "readGuildcardChunkReq env (recvData client) = Some (c, cont)"
  shows "(cont \<noteq> 1 \<longrightarrow> handleGuildcardChunk env client = (None, client))
     \<and> (cont = 1 \<and> unat (gcDataSize client) = length (gcData client)
          \<and> unat c * unat MaxChunkSize < length (gcData client) \<longrightarrow>
        handleGuildcardChunk env client
          = (None, send (GuildcardChunkPacket c
               (take (min (length (gcData client) - unat c * unat MaxChunkSize) (unat MaxChunkSize))
                  (drop (unat c * unat MaxChunkSize) (gcData client)))) client))"
proof (intro conjI impI)
  assume "cont \<noteq> 1"
  with req show "handleGuildcardChunk env client = (None, client)"
    by (simp add: handleGuildcardChunk_def)
next
  assume a: "cont = 1 \<and> unat (gcDataSize client) = length (gcData client)
          \<and> unat c * unat MaxChunkSize < length (gcData client)"
  then have "guildcardChunkData (gcData client) (gcDataSize client) c
     = Some (take (min (length (gcData client) - unat c * 26624) 26624)
               (drop (unat c * 26624) (gcData client)))"
    by (intro guildcardChunkData_in_range) (simp_all add: unat_MaxChunkSize)
  with a req show "handleGuildcardChunk env client
          = (None, send (GuildcardChunkPacket c
               (take (min (length (gcData client) - unat c * unat MaxChunkSize) (unat MaxChunkSize))
                  (drop (unat c * unat MaxChunkSize) (gcData client)))) client)"
    by (simp add: handleGuildcardChunk_def SendGuildcardChunk_def unat_MaxChunkSize)
qed

lemma get_put_u32: "get_u32 (put_u32 w @ rest) = w"
  unfolding get_u32_def put_u32_def
  apply (rule bit_word_eqI)
  apply (auto simp add: bit_or_iff bit_push_bit_iff bit_ucast_iff bit_drop_bit_eq)
  subgoal for n by (cases "24 \<le> n") simp_all
  done

lemma read_chunkRequest:
  "readGuildcardChunkReq plainEnv (chunkRequest c cont) = Some (c, cont)"
proof -
  have "drop 12 (chunkRequest c cont) = put_u32 c @ put_u32 cont @ replicate 1004 0"
    by (simp add: chunkRequest_def)
  moreover have "drop 16 (chunkRequest c cont) = put_u32 cont @ replicate 1004 0"
    by (simp add: chunkRequest_def put_u32_def)
  ultimately show ?thesis
    by (simp add: plainEnv_def get_put_u32) (simp add: chunkRequest_def put_u32_def)
qed

theorem handleGuildcardChunk_serves_witness:
  "handleGuildcardChunk plainEnv
      (newClient\<lparr>recvData := chunkRequest 2 1, gcData := replicate 54672 0, gcDataSize := 54672\<rparr>)
     = (None, send (GuildcardChunkPacket 2 (replicate 1424 0))
         (newClient\<lparr>recvData := chunkRequest 2 1, gcData := replicate 54672 0, gcDataSize := 54672\<rparr>))
   \<and> handleGuildcardChunk plainEnv
      (newClient\<lparr>recvData := chunkRequest 2 0, gcData := replicate 54672 0, gcDataSize := 54672\<rparr>)
     = (None, newClient\<lparr>recvData := chunkRequest 2 0, gcData := replicate 54672 0, gcDataSize := 54672\<rparr>)"
  using handleGuildcardChunk_serves [of plainEnv
      "newClient\<lparr>recvData := chunkRequest 2 1, gcData := replicate 54672 0, gcDataSize := 54672\<rparr>" 2 1]
    handleGuildcardChunk_serves [of plainEnv
      "newClient\<lparr>recvData := chunkRequest 2 0, gcData := replicate 54672 0, gcDataSize := 54672\<rparr>" 2 0]
  by (simp add: read_chunkRequest newClient_def MaxChunkSize_def)

text \<open>
  Claim C5 as stated fails past the end of the blob. With the blob of 54672 bytes staged,
  chunk 3 starts at 79872, past the end; the \<open>uint16\<close> offset wraps to 14336 and the
  server answers with 26624 bytes from there: the payload is not empty and the handler
  returns without an error, so the session goes on.
\<close>

theorem handleGuildcardChunk_past_end_counterexample:
  "handleGuildcardChunk plainEnv
      (newClient\<lparr>recvData := chunkRequest 3 1, gcData := replicate 54672 0, gcDataSize := 54672\<rparr>)
     = (None, send (GuildcardChunkPacket 3 (replicate 26624 0))
         (newClient\<lparr>recvData := chunkRequest 3 1, gcData := replicate 54672 0, gcDataSize := 54672\<rparr>))"
  by (simp add: handleGuildcardChunk_def read_chunkRequest SendGuildcardChunk_def
      guildcardChunkData_def MaxChunkSize_def slice_def newClient_def)

subsection \<open>All chunks, and the checksum of the header\<close>

lemma concat_chunks:
  "concat (map (\<lambda>c. take S (drop (c * S) xs)) [0 ..< k]) = take (k * S) xs"
proof (induction k)
  case 0
  then show ?case by simp
next
  case (Suc k)
  have "take (k * S + S) xs = take (k * S) xs @ take S (drop (k * S) xs)"
    by (rule take_add)
  with Suc show ?case by (simp add: add.commute)
qed

lemma take_min_length: "take (min (length ys) b) ys = take b ys"
  by (cases "b \<le> length ys") (simp_all add: min_def)

lemma ceil_chunks: "c < (n + 26623) div 26624 \<Longrightarrow> c * 26624 < (n :: nat)"
  by arith

lemma ceil_covers: "(n :: nat) \<le> ((n + 26623) div 26624) * 26624"
  by arith

lemma SendGuildcardChunk_in_range:
  assumes sz: "unat (gcDataSize client) = length (gcData client)"
    and c: "c < (length (gcData client) + 26623) div 26624"
  shows "SendGuildcardChunk client (of_nat c)
     = (None, send (GuildcardChunkPacket (of_nat c)
                      (take 26624 (drop (c * 26624) (gcData client)))) client)"
proof -
  have n: "length (gcData client) < 65536" using unat_u16_bound [of "gcDataSize client"] sz by simp
  from ceil_chunks [OF c] have inr: "c * 26624 < length (gcData client)" .
  with n have "c < 2 ^ LENGTH(32)" by simp
  then have "unat (of_nat c :: u32) = c" by (simp add: unat_of_nat)
  with inr have inr': "unat (of_nat c :: u32) * 26624 < length (gcData client)" by simp
  have "guildcardChunkData (gcData client) (gcDataSize client) (of_nat c)
     = Some (take (min (length (gcData client) - c * 26624) 26624) (drop (c * 26624) (gcData client)))"
    using guildcardChunkData_in_range [OF sz inr'] \<open>unat (of_nat c :: u32) = c\<close> by simp
  also have "take (min (length (gcData client) - c * 26624) 26624) (drop (c * 26624) (gcData client))
      = take 26624 (drop (c * 26624) (gcData client))"
    using take_min_length [of "drop (c * 26624) (gcData client)" 26624] by simp
  finally show ?thesis by (simp add: SendGuildcardChunk_def)
qed

lemma chunks_complete:
  assumes sz: "unat (gcDataSize client) = length (gcData client)"
  shows "\<exists>ds. length ds = (length (gcData client) + 26623) div 26624
     \<and> (\<forall>c < (length (gcData client) + 26623) div 26624.
           SendGuildcardChunk client (of_nat c)
             = (None, send (GuildcardChunkPacket (of_nat c) (ds ! c)) client))
     \<and> concat ds = gcData client"
proof -
  define k where "k = (length (gcData client) + 26623) div 26624"
  define ds where "ds = map (\<lambda>c. take 26624 (drop (c * 26624) (gcData client))) [0 ..< k]"
  have 1: "length ds = k" by (simp add: ds_def)
  have 2: "\<forall>c < k. SendGuildcardChunk client (of_nat c)
             = (None, send (GuildcardChunkPacket (of_nat c) (ds ! c)) client)"
    using SendGuildcardChunk_in_range [OF sz] by (simp add: ds_def k_def)
  have "concat ds = take (k * 26624) (gcData client)"
    unfolding ds_def by (rule concat_chunks)
  also have "\<dots> = gcData client" using ceil_covers [of "length (gcData client)"] by (simp add: k_def)
  finally have 3: "concat ds = gcData client" .
  from 1 2 3 show ?thesis unfolding k_def by (intro exI [of _ ds] conjI)
qed

lemma length_concat_const:
  "(\<forall>x \<in> set xs. length (f x) = m) \<Longrightarrow> length (concat (map f xs)) = m * length xs"
  by (induction xs) simp_all

lemma length_put_u16s: "length (concat (map put_u16 ws)) = 2 * length ws"
  by (rule length_concat_const) (simp add: put_u16_def)

lemma length_entry: "wfGuildcardEntry e \<Longrightarrow> length (BytesFromStruct_GuildcardEntry e) = 444"
  by (simp add: wfGuildcardEntry_def BytesFromStruct_GuildcardEntry_def length_put_u16s put_u32_def)

lemma length_GuildcardData:
  "wfGuildcardData d \<Longrightarrow> length (BytesFromStruct_GuildcardData d) = 54672"
proof -
  assume wf: "wfGuildcardData d"
  then have "\<forall>e \<in> set (Entries d). length (BytesFromStruct_GuildcardEntry e) = 444"
    by (simp add: wfGuildcardData_def list_all_iff length_entry)
  then have "length (concat (map BytesFromStruct_GuildcardEntry (Entries d))) = 444 * length (Entries d)"
    by (rule length_concat_const)
  with wf show ?thesis by (simp add: BytesFromStruct_GuildcardData_def wfGuildcardData_def)
qed

lemma wf_new: "wfGuildcardData new_GuildcardData"
  by (simp add: wfGuildcardData_def new_GuildcardData_def wfGuildcardEntry_def new_GuildcardEntry_def
      list_all_iff)

lemma scan_wf:
  "scanGuildcardRows rows i gc = Some gc' \<Longrightarrow> wfGuildcardData gc \<Longrightarrow> wfGuildcardData gc'"
proof (induction rows arbitrary: i gc)
  case Nil
  then show ?case by simp
next
  case (Cons r rows)
  show ?case
  proof (cases "i < 140 \<and> i < length (Entries gc)")
    case False
    with Cons.prems show ?thesis by (auto split: if_splits)
  next
    case True
    with Cons.prems obtain row where r: "r = Some row" by (cases r) auto
    define gc1 where "gc1 = gc\<lparr>Entries := (Entries gc)
                   [i := (Entries gc ! i)\<lparr>Guildcard := friend_gc row, Language := language row,
                          SectionID := section_id row, CharClass := char_class row\<rparr>]\<rparr>"
    from True r Cons.prems(1) have step: "scanGuildcardRows rows (Suc i) gc1 = Some gc'"
      by (simp add: gc1_def)
    have "wfGuildcardEntry (Entries gc ! i)"
      using Cons.prems(2) True by (simp add: wfGuildcardData_def list_all_length)
    then have "wfGuildcardEntry ((Entries gc ! i)\<lparr>Guildcard := friend_gc row, Language := language row,
                          SectionID := section_id row, CharClass := char_class row\<rparr>)"
      by (simp add: wfGuildcardEntry_def)
    then have "wfGuildcardData gc1"
      using Cons.prems(2) True
      by (auto simp add: wfGuildcardData_def gc1_def list_all_length nth_list_update)
    with Cons.IH [OF step] show ?thesis .
  qed
qed

lemma handleGuildcardDataStart_header:
  assumes "handleGuildcardDataStart env client0 = (None, client)"
  shows "conn_sent client = conn_sent client0
           @ [GuildcardHeaderPacket 1 (gcDataSize client) (ChecksumIEEE (gcData client))]
     \<and> unat (gcDataSize client) = length (gcData client)"
proof -
  from assms obtain rows gc where
    q: "queryGuildcardEntries env (guildcard client0) = Some rows"
    and s: "scanGuildcardRows rows 0 new_GuildcardData = Some gc"
    by (auto simp: handleGuildcardDataStart_def split: option.splits)
  have len: "length (BytesFromStruct_GuildcardData gc) = 54672"
    using scan_wf [OF s wf_new] by (rule length_GuildcardData)
  have c: "client = SendGuildcardHeader
      (client0\<lparr>gcData := BytesFromStruct_GuildcardData gc, gcDataSize := 54672\<rparr>)
      (ChecksumIEEE (BytesFromStruct_GuildcardData gc)) 54672"
    using assms q s len by (simp add: handleGuildcardDataStart_def Let_def)
  show ?thesis
    unfolding c by (simp add: SendGuildcardHeader_def send_def len)
qed


text \<open>
  Claim C2. \<open>handleGuildcardDataStart\<close> stages the blob with its size and sends the
  header with the CRC-32 of the staged blob. For a staged blob \<open>gcData\<close> of size
  \<open>gcDataSize\<close>, the requests for the chunks \<open>0\<close> to \<open>ceil(gcDataSize / MaxChunkSize) - 1\<close>
  are all answered, and their payloads, concatenated in this order, are \<open>gcData\<close>.
\<close>

theorem guildcard_chunks_complete:
  "(handleGuildcardDataStart env client0 = (None, client) \<longrightarrow>
      conn_sent client = conn_sent client0
         @ [GuildcardHeaderPacket 1 (gcDataSize client) (ChecksumIEEE (gcData client))]
      \<and> unat (gcDataSize client) = length (gcData client))
   \<and> (unat (gcDataSize client) = length (gcData client) \<longrightarrow>
      (\<exists>ds. length ds = (length (gcData client) + unat MaxChunkSize - 1) div unat MaxChunkSize
         \<and> (\<forall>c < (length (gcData client) + unat MaxChunkSize - 1) div unat MaxChunkSize.
               SendGuildcardChunk client (of_nat c)
                 = (None, send (GuildcardChunkPacket (of_nat c) (ds ! c)) client))
         \<and> concat ds = gcData client))"
proof (intro conjI impI)
  assume "handleGuildcardDataStart env client0 = (None, client)"
  from handleGuildcardDataStart_header [OF this]
  show "conn_sent client = conn_sent client0
         @ [GuildcardHeaderPacket 1 (gcDataSize client) (ChecksumIEEE (gcData client))]"
    and "unat (gcDataSize client) = length (gcData client)"
    by simp_all
next
  assume sz: "unat (gcDataSize client) = length (gcData client)"
  have eq: "(length (gcData client) + unat MaxChunkSize - 1) div unat MaxChunkSize
      = (length (gcData client) + 26623) div 26624"
    by (simp add: unat_MaxChunkSize)
  show "\<exists>ds. length ds = (length (gcData client) + unat MaxChunkSize - 1) div unat MaxChunkSize
         \<and> (\<forall>c < (length (gcData client) + unat MaxChunkSize - 1) div unat MaxChunkSize.
               SendGuildcardChunk client (of_nat c)
                 = (None, send (GuildcardChunkPacket (of_nat c) (ds ! c)) client))
         \<and> concat ds = gcData client"
    unfolding eq by (rule chunks_complete [OF sz])
qed

lemma staged: "handleGuildcardDataStart plainEnv newClient = (None, stagedClient)"
  using length_GuildcardData [OF wf_new]
  by (simp add: handleGuildcardDataStart_def plainEnv_def stagedClient_def newClient_def Let_def
      SendGuildcardHeader_def send_def)

theorem guildcard_chunks_complete_witness:
  "handleGuildcardDataStart plainEnv newClient = (None, stagedClient)
   \<and> conn_sent stagedClient = [GuildcardHeaderPacket 1 54672 (ChecksumIEEE (gcData stagedClient))]
   \<and> unat (gcDataSize stagedClient) = length (gcData stagedClient)
   \<and> (\<exists>ds. length ds = 3
         \<and> SendGuildcardChunk stagedClient 0
              = (None, send (GuildcardChunkPacket 0 (ds ! 0)) stagedClient)
         \<and> SendGuildcardChunk stagedClient 1
              = (None, send (GuildcardChunkPacket 1 (ds ! 1)) stagedClient)
         \<and> SendGuildcardChunk stagedClient 2
              = (None, send (GuildcardChunkPacket 2 (ds ! 2)) stagedClient)
         \<and> concat ds = gcData stagedClient)"
proof -
  have len: "length (gcData stagedClient) = 54672"
    using length_GuildcardData [OF wf_new] by (simp add: stagedClient_def)
  have sz: "unat (gcDataSize stagedClient) = length (gcData stagedClient)"
    unfolding len by (simp add: stagedClient_def)
  from guildcard_chunks_complete [of plainEnv newClient stagedClient] staged sz
  obtain ds where ds: "length ds = (length (gcData stagedClient) + unat MaxChunkSize - 1) div unat MaxChunkSize"
    "\<forall>c < (length (gcData stagedClient) + unat MaxChunkSize - 1) div unat MaxChunkSize.
               SendGuildcardChunk stagedClient (of_nat c)
                 = (None, send (GuildcardChunkPacket (of_nat c) (ds ! c)) stagedClient)"
    "concat ds = gcData stagedClient"
    by auto
  have k: "(length (gcData stagedClient) + unat MaxChunkSize - 1) div unat MaxChunkSize = 3"
    by (simp add: len unat_MaxChunkSize)
  from ds(2) [unfolded k, rule_format, of 0] ds(2) [unfolded k, rule_format, of 1]
    ds(2) [unfolded k, rule_format, of 2]
  have "SendGuildcardChunk stagedClient (of_nat 0)
                 = (None, send (GuildcardChunkPacket (of_nat 0) (ds ! 0)) stagedClient)"
     "SendGuildcardChunk stagedClient (of_nat 1)
                 = (None, send (GuildcardChunkPacket (of_nat 1) (ds ! 1)) stagedClient)"
     "SendGuildcardChunk stagedClient (of_nat 2)
                 = (None, send (GuildcardChunkPacket (of_nat 2) (ds ! 2)) stagedClient)"
    by simp_all
  then have "length ds = 3
         \<and> SendGuildcardChunk stagedClient 0
              = (None, send (GuildcardChunkPacket 0 (ds ! 0)) stagedClient)
         \<and> SendGuildcardChunk stagedClient 1
              = (None, send (GuildcardChunkPacket 1 (ds ! 1)) stagedClient)
         \<and> SendGuildcardChunk stagedClient 2
              = (None, send (GuildcardChunkPacket 2 (ds ! 2)) stagedClient)
         \<and> concat ds = gcData stagedClient"
    using ds(1,3) k by simp
  then have ex: "\<exists>ds. length ds = 3
         \<and> SendGuildcardChunk stagedClient 0
              = (None, send (GuildcardChunkPacket 0 (ds ! 0)) stagedClient)
         \<and> SendGuildcardChunk stagedClient 1
              = (None, send (GuildcardChunkPacket 1 (ds ! 1)) stagedClient)
         \<and> SendGuildcardChunk stagedClient 2
              = (None, send (GuildcardChunkPacket 2 (ds ! 2)) stagedClient)
         \<and> concat ds = gcData stagedClient" ..
  have sent: "conn_sent stagedClient = [GuildcardHeaderPacket 1 54672 (ChecksumIEEE (gcData stagedClient))]"
    by (simp add: stagedClient_def)
  from staged sent sz ex show ?thesis by (intro conjI)
qed


section \<open>Properties of the parameter cache\<close>

declare loadParameterFiles_chunks.simps [simp del]

subsection \<open>The two loops\<close>

lemma read_loop:
  "loadParameterFiles_read readFile names offset hdr tmp = Inr (offset', hdr', tmp') \<Longrightarrow>
     offset' = offset + length (concat (map (parameterFile readFile) names))
     \<and> tmp' = tmp @ concat (map (parameterFile readFile) names)
     \<and> hdr' = hdr @ concat (map BytesFromStruct_ParameterEntry (headerOf readFile names offset))
     \<and> (\<forall>n \<in> set names. readFile (''parameters/'' @ n) \<noteq> None)"
proof (induction names arbitrary: offset hdr tmp)
  case Nil
  then show ?case by simp
next
  case (Cons paramFile rest)
  from Cons.prems obtain data where d: "readFile (''parameters/'' @ paramFile) = Some data"
    by (cases "readFile (''parameters/'' @ paramFile)") simp_all
  then have pf: "parameterFile readFile paramFile = data" by (simp add: parameterFile_def)
  from Cons.prems d have
    "loadParameterFiles_read readFile rest (offset + length data)
       (hdr @ BytesFromStruct_ParameterEntry (newParameterEntry paramFile data offset))
       (tmp @ data) = Inr (offset', hdr', tmp')"
    by simp
  from Cons.IH [OF this] show ?case using d pf by simp
qed

lemma read_loop_total:
  "(\<forall>n \<in> set names. readFile (''parameters/'' @ n) \<noteq> None) \<Longrightarrow>
     \<exists>r. loadParameterFiles_read readFile names offset hdr tmp = Inr r"
proof (induction names arbitrary: offset hdr tmp)
  case Nil
  then show ?case by simp
next
  case (Cons paramFile rest)
  then obtain data where d: "readFile (''parameters/'' @ paramFile) = Some data" by auto
  from Cons.prems have "\<forall>n \<in> set rest. readFile (''parameters/'' @ n) \<noteq> None" by simp
  from Cons.IH [OF this] d show ?case by simp
qed


lemma length_put_u32: "length (put_u32 w) = 4"
  by (simp add: put_u32_def)

lemma headerEntry_0:
  "length (Filename e) = 64 \<Longrightarrow> headerEntry (BytesFromStruct_ParameterEntry e @ rest) 0 = e"
  by (cases e)
    (simp add: headerEntry_def BytesFromStruct_ParameterEntry_def get_put_u32 length_put_u32)

lemma headerEntry_Suc:
  "length (Filename e) = 64 \<Longrightarrow>
     headerEntry (BytesFromStruct_ParameterEntry e @ rest) (Suc i) = headerEntry rest i"
proof -
  assume "length (Filename e) = 64"
  then have "length (BytesFromStruct_ParameterEntry e) = 76"
    by (simp add: BytesFromStruct_ParameterEntry_def length_put_u32)
  then have "drop (76 * Suc i) (BytesFromStruct_ParameterEntry e @ rest) = drop (76 * i) rest"
    by simp
  then show ?thesis by (simp only: headerEntry_def)
qed

lemma headerEntry_nth:
  "i < length es \<Longrightarrow> \<forall>e \<in> set es. length (Filename e) = 64 \<Longrightarrow>
     headerEntry (concat (map BytesFromStruct_ParameterEntry es)) i = es ! i"
proof (induction es arbitrary: i)
  case Nil
  then show ?case by simp
next
  case (Cons e es)
  show ?case
  proof (cases i)
    case 0
    with Cons.prems show ?thesis by (simp add: headerEntry_0)
  next
    case (Suc j)
    with Cons show ?thesis by (simp add: headerEntry_Suc)
  qed
qed

lemma Filename_new: "length (Filename (newParameterEntry n d off)) = 64"
  by (simp add: newParameterEntry_def copy_def)

lemma headerOf_length: "length (headerOf readFile names off) = length names"
  by (induction names arbitrary: off) simp_all

lemma headerOf_Filename: "\<forall>e \<in> set (headerOf readFile names off). length (Filename e) = 64"
  by (induction names arbitrary: off) (simp_all add: Filename_new)

lemma headerOf_nth:
  "i < length names \<Longrightarrow>
     headerOf readFile names off ! i
       = newParameterEntry (names ! i) (parameterFile readFile (names ! i))
           (off + length (concat (map (parameterFile readFile) (take i names))))"
proof (induction names arbitrary: off i)
  case Nil
  then show ?case by simp
next
  case (Cons n names)
  show ?case
  proof (cases i)
    case 0
    then show ?thesis by simp
  next
    case (Suc j)
    with Cons show ?thesis by (simp add: add.assoc)
  qed
qed

lemma chunks_loop:
  "i \<le> chunks \<Longrightarrow> chunks * MAX_CHUNK_SIZE \<le> length tmp \<Longrightarrow>
     loadParameterFiles_chunks tmp chunks i m offset
       = Inr (\<lambda>j. if i \<le> j \<and> j < chunks
                  then Some (take MAX_CHUNK_SIZE (drop (j * MAX_CHUNK_SIZE) tmp)) else m j,
              offset - (chunks - i) * MAX_CHUNK_SIZE)"
proof (induction tmp chunks i m offset rule: loadParameterFiles_chunks.induct)
  case (1 tmp chunks i m offset)
  show ?case
  proof (cases "i < chunks")
    case False
    with "1.prems" have e: "i = chunks" by simp
    have "(\<lambda>j. if i \<le> j \<and> j < chunks
                  then Some (take MAX_CHUNK_SIZE (drop (j * MAX_CHUNK_SIZE) tmp)) else m j) = m"
      using e by (intro ext) auto
    then show ?thesis using e by (subst loadParameterFiles_chunks.simps) simp
  next
    case True
    then have "(i + 1) * MAX_CHUNK_SIZE \<le> chunks * MAX_CHUNK_SIZE" by (intro mult_le_mono1) simp
    with "1.prems" have fit: "i * MAX_CHUNK_SIZE + MAX_CHUNK_SIZE \<le> length tmp" by simp
    then have sl: "slice tmp (i * MAX_CHUNK_SIZE) (i * MAX_CHUNK_SIZE + MAX_CHUNK_SIZE)
        = Some (take MAX_CHUNK_SIZE (drop (i * MAX_CHUNK_SIZE) tmp))"
      by (simp add: slice_def)
    have le: "i + 1 \<le> chunks" using True by simp
    have "loadParameterFiles_chunks tmp chunks i m offset
        = loadParameterFiles_chunks tmp chunks (i + 1)
            (m(i \<mapsto> take MAX_CHUNK_SIZE (drop (i * MAX_CHUNK_SIZE) tmp))) (offset - MAX_CHUNK_SIZE)"
      using True sl by (subst loadParameterFiles_chunks.simps) simp
    also have "\<dots> = Inr (\<lambda>j. if i + 1 \<le> j \<and> j < chunks
                  then Some (take MAX_CHUNK_SIZE (drop (j * MAX_CHUNK_SIZE) tmp))
                  else (m(i \<mapsto> take MAX_CHUNK_SIZE (drop (i * MAX_CHUNK_SIZE) tmp))) j,
              offset - MAX_CHUNK_SIZE - (chunks - (i + 1)) * MAX_CHUNK_SIZE)"
      using "1.IH" [OF True sl le "1.prems"(2)] .
    also have "(\<lambda>j. if i + 1 \<le> j \<and> j < chunks
                  then Some (take MAX_CHUNK_SIZE (drop (j * MAX_CHUNK_SIZE) tmp))
                  else (m(i \<mapsto> take MAX_CHUNK_SIZE (drop (i * MAX_CHUNK_SIZE) tmp))) j)
        = (\<lambda>j. if i \<le> j \<and> j < chunks
                  then Some (take MAX_CHUNK_SIZE (drop (j * MAX_CHUNK_SIZE) tmp)) else m j)"
      using True by (intro ext) auto
    also have "offset - MAX_CHUNK_SIZE - (chunks - (i + 1)) * MAX_CHUNK_SIZE
        = offset - (chunks - i) * MAX_CHUNK_SIZE"
    proof -
      have "chunks - i = Suc (chunks - (i + 1))" using True by simp
      then show ?thesis by simp
    qed
    finally show ?thesis .
  qed
qed


lemma loadParameterFiles_result:
  assumes "loadParameterFiles readFile = Inr (hdr, chunks)"
  shows "hdr = concat (map BytesFromStruct_ParameterEntry (headerOf readFile paramFiles 0))"
    and "chunks = chunksOf (concat (map (parameterFile readFile) paramFiles))"
proof -
  define tmp where "tmp = concat (map (parameterFile readFile) paramFiles)"
  let ?k = "length tmp div MAX_CHUNK_SIZE"
  let ?full = "\<lambda>j. if 0 \<le> j \<and> j < ?k
                  then Some (take MAX_CHUNK_SIZE (drop (j * MAX_CHUNK_SIZE) tmp)) else None"
  from assms obtain offset hdr' tmp' where
    rd: "loadParameterFiles_read readFile paramFiles 0 [] [] = Inr (offset, hdr', tmp')"
    by (cases "loadParameterFiles_read readFile paramFiles 0 [] []")
      (auto simp: loadParameterFiles_def)
  from read_loop [OF rd] have off: "offset = length tmp" and t: "tmp' = tmp"
    and h: "hdr' = concat (map BytesFromStruct_ParameterEntry (headerOf readFile paramFiles 0))"
    by (simp_all add: tmp_def)
  have fit: "?k * MAX_CHUNK_SIZE \<le> length tmp" by simp
  have loop: "loadParameterFiles_chunks tmp ?k 0 Map.empty (length tmp)
       = Inr (?full, length tmp - (?k - 0) * MAX_CHUNK_SIZE)"
    using fit by (intro chunks_loop) simp_all
  have rem: "length tmp - (?k - 0) * MAX_CHUNK_SIZE = length tmp mod MAX_CHUNK_SIZE"
    by (simp add: minus_div_mult_eq_mod)
  have "loadParameterFiles readFile =
      (if 0 < length tmp mod MAX_CHUNK_SIZE
       then Inr (hdr', ?full(?k \<mapsto> drop (?k * MAX_CHUNK_SIZE) tmp))
       else Inr (hdr', ?full))"
    unfolding loadParameterFiles_def rd off t Let_def
    by (simp only: loop rem prod.case sum.case fit if_True)
  with assms have res: "(hdr, chunks) =
      (if 0 < length tmp mod MAX_CHUNK_SIZE
       then (hdr', ?full(?k \<mapsto> drop (?k * MAX_CHUNK_SIZE) tmp))
       else (hdr', ?full))"
    by (simp split: if_splits)
  then show "hdr = concat (map BytesFromStruct_ParameterEntry (headerOf readFile paramFiles 0))"
    using h by (simp split: if_splits)
  from res have "chunks = chunksOf tmp"
    by (intro ext) (auto simp: chunksOf_def split: if_splits)
  then show "chunks = chunksOf (concat (map (parameterFile readFile) paramFiles))"
    by (simp add: tmp_def)
qed

lemma chunksOf_length_full:
  "j < length tmp div MAX_CHUNK_SIZE \<Longrightarrow> length (the (chunksOf tmp j)) = MAX_CHUNK_SIZE"
proof -
  assume j: "j < length tmp div MAX_CHUNK_SIZE"
  then have "Suc j * MAX_CHUNK_SIZE \<le> (length tmp div MAX_CHUNK_SIZE) * MAX_CHUNK_SIZE"
    by (intro mult_le_mono1) simp
  also have "\<dots> \<le> length tmp" by simp
  finally have "j * MAX_CHUNK_SIZE + MAX_CHUNK_SIZE \<le> length tmp" by simp
  then show ?thesis using j by (simp add: chunksOf_def)
qed

lemma chunksOf_length_last:
  "0 < length tmp mod MAX_CHUNK_SIZE \<Longrightarrow>
     length (the (chunksOf tmp (length tmp div MAX_CHUNK_SIZE))) = length tmp mod MAX_CHUNK_SIZE"
  by (simp add: chunksOf_def minus_div_mult_eq_mod)

lemma chunksOf_dom:
  "dom (chunksOf tmp)
     = {..< length tmp div MAX_CHUNK_SIZE + (if 0 < length tmp mod MAX_CHUNK_SIZE then 1 else 0)}"
  by (auto simp: chunksOf_def dom_def split: if_splits)

lemma chunksOf_sum:
  "(\<Sum>j \<in> dom (chunksOf tmp). length (the (chunksOf tmp j))) = length tmp"
proof -
  let ?k = "length tmp div MAX_CHUNK_SIZE"
  have full: "(\<Sum>j<?k. length (the (chunksOf tmp j))) = ?k * MAX_CHUNK_SIZE"
    by (simp add: chunksOf_length_full)
  show ?thesis
  proof (cases "0 < length tmp mod MAX_CHUNK_SIZE")
    case True
    then have "dom (chunksOf tmp) = {..<Suc ?k}" by (simp add: chunksOf_dom)
    then have "(\<Sum>j \<in> dom (chunksOf tmp). length (the (chunksOf tmp j)))
        = (\<Sum>j<?k. length (the (chunksOf tmp j))) + length (the (chunksOf tmp ?k))"
      by simp
    also have "\<dots> = ?k * MAX_CHUNK_SIZE + length tmp mod MAX_CHUNK_SIZE"
      using True by (simp only: full chunksOf_length_last)
    also have "\<dots> = length tmp" by simp
    finally show ?thesis .
  next
    case False
    then have "dom (chunksOf tmp) = {..<?k}" by (simp add: chunksOf_dom)
    then have "(\<Sum>j \<in> dom (chunksOf tmp). length (the (chunksOf tmp j))) = ?k * MAX_CHUNK_SIZE"
      by (simp only: full)
    also have "\<dots> = length tmp"
      using False div_mult_mod_eq [of "length tmp" MAX_CHUNK_SIZE] by simp
    finally show ?thesis .
  qed
qed

lemma chunksOf_not_last:
  "chunksOf tmp i = Some c \<Longrightarrow> i < j \<Longrightarrow> chunksOf tmp j \<noteq> None \<Longrightarrow> length c = MAX_CHUNK_SIZE"
proof -
  assume c: "chunksOf tmp i = Some c" and ij: "i < j" and j: "chunksOf tmp j \<noteq> None"
  from j have "j \<le> length tmp div MAX_CHUNK_SIZE" by (auto simp: chunksOf_def split: if_splits)
  with ij have "i < length tmp div MAX_CHUNK_SIZE" by simp
  from chunksOf_length_full [OF this] c show ?thesis by simp
qed


lemma length_concat_take:
  "i \<le> length xs \<Longrightarrow> length (concat (map f (take i xs))) = (\<Sum>j<i. length (f (xs ! j)))"
proof (induction i)
  case 0
  then show ?case by simp
next
  case (Suc i)
  then have "take (Suc i) xs = take i xs @ [xs ! i]" by (simp add: take_Suc_conv_app_nth)
  with Suc show ?case by simp
qed

lemma length_concat_take_le:
  "length (concat (map f (take i xs))) \<le> length (concat (map f xs))"
proof -
  have "concat (map f xs) = concat (map f (take i xs)) @ concat (map f (drop i xs))"
    by (metis append_take_drop_id concat_append map_append)
  then show ?thesis by simp
qed

lemma length_nth_le_concat:
  "i < length xs \<Longrightarrow> length (f (xs ! i)) \<le> length (concat (map f xs))"
proof -
  assume "i < length xs"
  then have "f (xs ! i) \<in> set (map f xs)" by simp
  then obtain ys zs where "map f xs = ys @ f (xs ! i) # zs" by (meson split_list)
  then have "concat (map f xs) = concat ys @ f (xs ! i) @ concat zs" by simp
  then show ?thesis by simp
qed

lemma unat_of_nat_u32: "n < 2 ^ 32 \<Longrightarrow> unat (of_nat n :: u32) = n"
proof -
  assume "n < 2 ^ 32"
  moreover have "unat (of_nat n :: u32) = n mod 2 ^ LENGTH(32)" by (rule unat_of_nat)
  ultimately show ?thesis by simp
qed

lemma loadParameterFiles_completes:
  assumes "\<forall>n \<in> set paramFiles. readFile (''parameters/'' @ n) \<noteq> None"
  shows "\<exists>hdr chunks. loadParameterFiles readFile = Inr (hdr, chunks)"
proof -
  from read_loop_total [OF assms, of 0 "[]" "[]"] obtain r where
    rd: "loadParameterFiles_read readFile paramFiles 0 [] [] = Inr r" ..
  obtain offset hdr tmp where r: "r = (offset, hdr, tmp)" by (cases r)
  from read_loop [OF rd [unfolded r]] have off: "offset = length tmp" by simp
  let ?k = "length tmp div MAX_CHUNK_SIZE"
  have fit: "?k * MAX_CHUNK_SIZE \<le> length tmp" by simp
  have loop: "loadParameterFiles_chunks tmp ?k 0 Map.empty (length tmp)
       = Inr (\<lambda>j. if 0 \<le> j \<and> j < ?k
                  then Some (take MAX_CHUNK_SIZE (drop (j * MAX_CHUNK_SIZE) tmp)) else None,
              length tmp - (?k - 0) * MAX_CHUNK_SIZE)"
    using fit by (intro chunks_loop) simp_all
  show ?thesis
    unfolding loadParameterFiles_def rd r off Let_def
    by (simp only: loop prod.case sum.case fit if_True) (simp split: if_splits)
qed

subsection \<open>Offsets, sizes and chunks\<close>

text \<open>
  Claim C3. When \<open>loadParameterFiles\<close> completes (every parameter file was read), then
  for every file index \<open>i\<close> the \<open>i\<close>-th \<open>ParameterEntry\<close> of the header has the length of
  the \<open>i\<close>-th file as its \<open>Size\<close> and the sum of the \<open>Size\<close>s before it as its
  \<open>Offset\<close> (as 32-bit values, and as numbers when the files together are shorter
  than \<open>2^32\<close> bytes); every chunk with a chunk after it has exactly \<open>MAX_CHUNK_SIZE\<close>
  bytes; and the lengths of all chunks add up to the lengths of all files.
\<close>

theorem loadParameterFiles_cache:
  assumes ok: "loadParameterFiles readFile = Inr (hdr, chunks)"
  shows "(\<forall>i < length paramFiles.
            readFile (''parameters/'' @ paramFiles ! i)
              = Some (parameterFile readFile (paramFiles ! i))
          \<and> Size (headerEntry hdr i) = of_nat (length (parameterFile readFile (paramFiles ! i)))
          \<and> Offset (headerEntry hdr i) = (\<Sum>j<i. Size (headerEntry hdr j))
          \<and> ((\<Sum>j<length paramFiles. length (parameterFile readFile (paramFiles ! j))) < 2 ^ 32 \<longrightarrow>
               unat (Size (headerEntry hdr i)) = length (parameterFile readFile (paramFiles ! i))
               \<and> unat (Offset (headerEntry hdr i))
                    = (\<Sum>j<i. length (parameterFile readFile (paramFiles ! j)))))
     \<and> (\<forall>i j c. chunks i = Some c \<and> i < j \<and> chunks j \<noteq> None \<longrightarrow> length c = MAX_CHUNK_SIZE)
     \<and> (\<Sum>j \<in> dom chunks. length (the (chunks j)))
          = (\<Sum>j<length paramFiles. length (parameterFile readFile (paramFiles ! j)))"
proof -
  let ?f = "parameterFile readFile"
  let ?tmp = "concat (map ?f paramFiles)"
  from loadParameterFiles_result [OF ok]
  have hdr: "hdr = concat (map BytesFromStruct_ParameterEntry (headerOf readFile paramFiles 0))"
    and chunks: "chunks = chunksOf ?tmp" .
  from ok obtain r where
    rd: "loadParameterFiles_read readFile paramFiles 0 [] [] = Inr r"
    by (cases "loadParameterFiles_read readFile paramFiles 0 [] []")
      (auto simp: loadParameterFiles_def)
  obtain a b c where r: "r = (a, b, c)" by (cases r)
  from read_loop [OF rd [unfolded r]]
  have readable: "\<forall>n \<in> set paramFiles. readFile (''parameters/'' @ n) \<noteq> None" by simp
  have total: "length ?tmp = (\<Sum>j<length paramFiles. length (?f (paramFiles ! j)))"
    using length_concat_take [of "length paramFiles" paramFiles ?f] by simp
  have entry: "headerEntry hdr i
      = newParameterEntry (paramFiles ! i) (?f (paramFiles ! i))
          (\<Sum>j<i. length (?f (paramFiles ! j)))" if "i < length paramFiles" for i
  proof -
    have "headerEntry hdr i = headerOf readFile paramFiles 0 ! i"
      unfolding hdr using that by (intro headerEntry_nth) (simp_all add: headerOf_length headerOf_Filename)
    also have "\<dots> = newParameterEntry (paramFiles ! i) (?f (paramFiles ! i))
          (0 + length (concat (map ?f (take i paramFiles))))"
      using that by (rule headerOf_nth)
    also have "0 + length (concat (map ?f (take i paramFiles))) = (\<Sum>j<i. length (?f (paramFiles ! j)))"
      using that by (simp add: length_concat_take)
    finally show ?thesis .
  qed
  have part1: "readFile (''parameters/'' @ paramFiles ! i) = Some (?f (paramFiles ! i))
          \<and> Size (headerEntry hdr i) = of_nat (length (?f (paramFiles ! i)))
          \<and> Offset (headerEntry hdr i) = (\<Sum>j<i. Size (headerEntry hdr j))
          \<and> ((\<Sum>j<length paramFiles. length (?f (paramFiles ! j))) < 2 ^ 32 \<longrightarrow>
               unat (Size (headerEntry hdr i)) = length (?f (paramFiles ! i))
               \<and> unat (Offset (headerEntry hdr i)) = (\<Sum>j<i. length (?f (paramFiles ! j))))"
    if i: "i < length paramFiles" for i
  proof (intro conjI impI)
    from i readable have "readFile (''parameters/'' @ paramFiles ! i) \<noteq> None" by simp
    then show "readFile (''parameters/'' @ paramFiles ! i) = Some (?f (paramFiles ! i))"
      by (auto simp: parameterFile_def)
    show sz: "Size (headerEntry hdr i) = of_nat (length (?f (paramFiles ! i)))"
      by (simp add: entry [OF i] newParameterEntry_def)
    have off: "Offset (headerEntry hdr i) = of_nat (\<Sum>j<i. length (?f (paramFiles ! j)))"
      by (simp add: entry [OF i] newParameterEntry_def)
    have "(\<Sum>j<i. Size (headerEntry hdr j)) = (\<Sum>j<i. of_nat (length (?f (paramFiles ! j))))"
      using i by (intro sum.cong) (simp_all add: entry newParameterEntry_def)
    then show "Offset (headerEntry hdr i) = (\<Sum>j<i. Size (headerEntry hdr j))"
      by (simp only: off of_nat_sum)
    assume small: "(\<Sum>j<length paramFiles. length (?f (paramFiles ! j))) < 2 ^ 32"
    have "length (?f (paramFiles ! i)) \<le> length ?tmp" using i by (rule length_nth_le_concat)
    with small total have "length (?f (paramFiles ! i)) < 2 ^ 32" by simp
    then show "unat (Size (headerEntry hdr i)) = length (?f (paramFiles ! i))"
      by (simp only: sz unat_of_nat_u32)
    have "(\<Sum>j<i. length (?f (paramFiles ! j))) = length (concat (map ?f (take i paramFiles)))"
      using i by (simp add: length_concat_take)
    also have "\<dots> \<le> length ?tmp" by (rule length_concat_take_le)
    finally have "(\<Sum>j<i. length (?f (paramFiles ! j))) < 2 ^ 32" using small total by simp
    then show "unat (Offset (headerEntry hdr i)) = (\<Sum>j<i. length (?f (paramFiles ! j)))"
      by (simp only: off unat_of_nat_u32)
  qed
  have part2: "\<forall>i j c. chunks i = Some c \<and> i < j \<and> chunks j \<noteq> None \<longrightarrow> length c = MAX_CHUNK_SIZE"
    unfolding chunks using chunksOf_not_last by blast
  have part3: "(\<Sum>j \<in> dom chunks. length (the (chunks j)))
          = (\<Sum>j<length paramFiles. length (?f (paramFiles ! j)))"
    unfolding chunks by (simp only: chunksOf_sum total)
  from part1 part2 part3 show ?thesis by (intro conjI allI impI) blast+
qed


theorem loadParameterFiles_cache_witness:
  "\<exists>hdr chunks. loadParameterFiles (\<lambda>path. Some (replicate 3000 7)) = Inr (hdr, chunks)
     \<and> Size (headerEntry hdr 2) = 3000 \<and> unat (Offset (headerEntry hdr 2)) = 6000
     \<and> (\<Sum>j \<in> dom chunks. length (the (chunks j))) = 27000"
proof -
  let ?rf = "\<lambda>path :: string. Some (replicate 3000 (7 :: u8))"
  obtain hdr chunks where ok: "loadParameterFiles ?rf = Inr (hdr, chunks)"
    using loadParameterFiles_completes [of ?rf] by auto
  have f: "parameterFile ?rf n = replicate 3000 7" for n by (simp add: parameterFile_def)
  have nine: "length paramFiles = 9" by (simp add: paramFiles_def)
  from loadParameterFiles_cache [OF ok]
  have "Size (headerEntry hdr 2) = 3000 \<and> unat (Offset (headerEntry hdr 2)) = 6000
     \<and> (\<Sum>j \<in> dom chunks. length (the (chunks j))) = 27000"
    by (simp add: f nine)
  with ok show ?thesis by blast
qed


section \<open>Properties of the session loop\<close>

declare run.simps [simp del]

subsection \<open>The frames that are dispatched\<close>

text \<open>
  Every transition keeps \<open>framed\<close>, and a fresh client (\<open>recvSize = 0\<close>) is framed. So
  whenever a frame is passed to \<open>processCharacterPacket\<close>, the buffer holds a header whose
  size field is \<open>packetSize\<close> and does not exceed the buffer.
\<close>

lemma length_overwrite: "length buf \<le> length (overwrite buf off new)"
  by (simp add: overwrite_def)

lemma overwrite_nth_before: "i < off \<Longrightarrow> off \<le> length buf \<Longrightarrow> overwrite buf off new ! i = buf ! i"
  by (simp add: overwrite_def nth_append)

lemma conn_Read_fits:
  "conn_Read evs space = Some ((bs, err), evs') \<Longrightarrow> length bs \<le> space"
  by (auto simp: conn_Read_def split: if_splits list.splits read_event.splits)

lemma received_framed:
  assumes "recvSize client \<le> length (recvData client)"
    and "length bs \<le> length (recvData client) - recvSize client"
  shows "recvSize (received client bs) \<le> length (recvData (received client bs))"
  using assms by (simp add: received_def overwrite_def)

lemma headerStep_framed:
  assumes inv: "framed HeaderLoop client"
    and st: "headerStep env client evs = Inl (l', client', evs')"
  shows "framed l' client'"
proof (cases "recvSize client < BBHeaderSize")
  case False
  with st have "l' = BodyLoop" "client' = client" by (simp_all add: headerStep_def)
  with inv False show ?thesis by (simp add: framed_def)
next
  case True
  with st obtain bs where
    rd: "conn_Read evs (length (recvData client) - recvSize client) = Some ((bs, NoErr), evs')"
    by (auto simp: headerStep_def Let_def split: if_splits option.splits prod.splits sum.splits)
  from inv have le: "recvSize client \<le> length (recvData client)" by (simp add: framed_def)
  let ?c1 = "received client bs"
  have r1: "recvSize ?c1 \<le> length (recvData ?c1)"
    using le conn_Read_fits [OF rd] by (rule received_framed)
  show ?thesis
  proof (cases "BBHeaderSize \<le> recvSize ?c1")
    case False
    with st True rd have "l' = HeaderLoop" "client' = ?c1"
      by (auto simp: headerStep_def Let_def split: if_splits)
    with r1 False show ?thesis by (simp add: framed_def)
  next
    case big: True
    let ?c2 = "decryptHeader env ?c1"
    have r2: "recvSize ?c2 \<le> length (recvData ?c2)"
    proof -
      have "recvSize ?c2 = recvSize ?c1" "length (recvData ?c1) \<le> length (recvData ?c2)"
        by (auto simp: decryptHeader_def length_overwrite split: prod.splits)
      with r1 show ?thesis by simp
    qed
    with big have "2 \<le> length (recvData ?c2)"
      by (auto simp: BBHeaderSize_def decryptHeader_def split: prod.splits)
    then have g: "GetPacketSize (take 2 (recvData ?c2))
        = Inr (le_u16 (recvData ?c2 ! 0) (recvData ?c2 ! 1))"
      by (simp add: GetPacketSize_def)
    from st True rd big g have "l' = HeaderLoop"
      "client' = ?c2\<lparr>packetSize := le_u16 (recvData ?c2 ! 0) (recvData ?c2 ! 1)\<rparr>"
      by (auto simp: headerStep_def Let_def split: if_splits)
    with r2 show ?thesis by (simp add: framed_def)
  qed
qed

lemma bodyStep_read_framed:
  assumes inv: "framed BodyLoop client"
    and more: "recvSize client < unat (packetSize client)"
    and st: "bodyStep env client evs = Inl (l', client', evs')"
  shows "framed l' client'"
proof -
  from st more obtain bs where
    rd: "conn_Read evs (length (recvData client) - recvSize client) = Some ((bs, NoErr), evs')"
    and res: "l' = BodyLoop" "client' = received client bs"
    by (auto simp: bodyStep_def split: if_splits option.splits prod.splits)
  from inv have le: "recvSize client \<le> length (recvData client)"
    and hs: "BBHeaderSize \<le> recvSize client"
    and ps: "packetSize client = le_u16 (recvData client ! 0) (recvData client ! 1)"
    by (simp_all add: framed_def)
  have r1: "recvSize (received client bs) \<le> length (recvData (received client bs))"
    using le conn_Read_fits [OF rd] by (rule received_framed)
  have keep: "recvData (received client bs) ! 0 = recvData client ! 0"
    "recvData (received client bs) ! 1 = recvData client ! 1"
    using hs le by (simp_all add: received_def overwrite_nth_before BBHeaderSize_def)
  show ?thesis
    using r1 keep ps hs by (simp add: framed_def res received_def)
qed

lemma dispatch_framed:
  assumes inv: "framed BodyLoop client"
    and whole: "unat (packetSize client) \<le> recvSize client"
    and c1: "(if packetSize client > 8 then decryptBody env client else Some client) = Some client1"
  shows "\<exists>h. StructFromBytes_BBPktHeader (take BBHeaderSize (recvData client1)) = Some h
     \<and> pktSize h = packetSize client
     \<and> unat (pktSize h) \<le> length (recvData client1)"
proof -
  from inv have le: "recvSize client \<le> length (recvData client)"
    and hs: "BBHeaderSize \<le> recvSize client"
    and ps: "packetSize client = le_u16 (recvData client ! 0) (recvData client ! 1)"
    by (simp_all add: framed_def)
  have len: "length (recvData client) \<le> length (recvData client1)"
    using c1 by (auto simp: decryptBody_def length_overwrite split: if_splits option.splits prod.splits)
  have keep: "recvData client1 ! 0 = recvData client ! 0" "recvData client1 ! 1 = recvData client ! 1"
    using c1 hs le
    by (auto simp: decryptBody_def overwrite_nth_before BBHeaderSize_def
        split: if_splits option.splits prod.splits)
  have l8: "8 \<le> length (recvData client1)" using len le hs by (simp add: BBHeaderSize_def)
  then have "StructFromBytes_BBPktHeader (take BBHeaderSize (recvData client1))
      = Some \<lparr>pktSize = le_u16 (recvData client1 ! 0) (recvData client1 ! 1),
               pktType = le_u16 (recvData client1 ! 2) (recvData client1 ! 3),
               pktFlags = get_u32 (drop 4 (take BBHeaderSize (recvData client1)))\<rparr>"
    by (simp add: StructFromBytes_BBPktHeader_def BBHeaderSize_def)
  moreover have "unat (packetSize client) \<le> length (recvData client1)"
    using whole le len by simp
  ultimately show ?thesis using keep ps by simp
qed

lemma step_framed:
  assumes "framed l client" and "step env l client evs = Inl (l', client', evs')"
  shows "framed l' client'"
proof (cases l)
  case HeaderLoop
  with assms show ?thesis by (auto simp: step_def intro: headerStep_framed)
next
  case BodyLoop
  show ?thesis
  proof (cases "recvSize client < unat (packetSize client)")
    case True
    with assms BodyLoop show ?thesis by (auto simp: step_def intro: bodyStep_read_framed)
  next
    case False
    with assms BodyLoop have "l' = HeaderLoop" "recvSize client' = 0"
      by (auto simp: step_def bodyStep_def dispatchFrame_def resetFrame_def
          split: if_splits option.splits prod.splits failure.splits)
    then show ?thesis by (simp add: framed_def BBHeaderSize_def)
  qed
qed

subsection \<open>Clearing the buffer\<close>

lemma ZeroSlice_fold:
  "m \<le> length arr \<Longrightarrow> fold (\<lambda>i a. a[i := 0]) [0 ..< m] arr = replicate m 0 @ drop m arr"
proof (induction m)
  case 0
  then show ?case by simp
next
  case (Suc m)
  then have lt: "m < length arr" by simp
  have "fold (\<lambda>i a. a[i := 0]) [0 ..< Suc m] arr = (replicate m 0 @ drop m arr)[m := 0]"
    using Suc by simp
  also have "\<dots> = replicate m 0 @ (drop m arr)[0 := 0]"
    by (simp add: list_update_append)
  also have "drop m arr = arr ! m # drop (Suc m) arr"
    using lt by (simp add: Cons_nth_drop_Suc)
  also have "replicate m 0 @ (arr ! m # drop (Suc m) arr)[0 := 0]
      = replicate (Suc m) 0 @ drop (Suc m) arr"
    by (simp add: replicate_append_same)
  finally show ?case .
qed

lemma ZeroSlice_eq:
  "ZeroSlice arr (int n) = replicate (min n (length arr)) 0 @ drop n arr"
proof (cases "length arr < n")
  case True
  then show ?thesis using ZeroSlice_fold [of "length arr" arr] by (simp add: ZeroSlice_def)
next
  case False
  then show ?thesis using ZeroSlice_fold [of n arr] by (simp add: ZeroSlice_def min_def)
qed

lemma resetFrame_eq:
  "resetFrame client =
     client\<lparr>recvData := replicate (min (recvSize client) (length (recvData client))) 0
                          @ drop (recvSize client) (recvData client),
            recvSize := 0, packetSize := 0\<rparr>"
  by (simp add: resetFrame_def ZeroSlice_eq)

lemma bodyStep_dispatch:
  assumes st: "bodyStep env client evs = Inl (l, client', evs')"
    and whole: "unat (packetSize client) \<le> recvSize client"
  shows "\<exists>client1 client2.
      (if packetSize client > 8 then decryptBody env client else Some client) = Some client1
    \<and> processCharacterPacket env client1 = (None, client2)
    \<and> l = HeaderLoop \<and> evs' = evs
    \<and> client' = client2\<lparr>recvData := replicate (min (recvSize client2) (length (recvData client2))) 0
                                        @ drop (recvSize client2) (recvData client2),
                          recvSize := 0, packetSize := 0\<rparr>"
proof -
  from st whole have d: "dispatchFrame env client evs = Inl (l, client', evs')"
    by (simp add: bodyStep_def)
  then obtain client1 where
    c1: "(if packetSize client > 8 then decryptBody env client else Some client) = Some client1"
    by (cases "if packetSize client > 8 then decryptBody env client else Some client")
      (simp_all add: dispatchFrame_def)
  obtain e client2 where p: "processCharacterPacket env client1 = (e, client2)"
    by (cases "processCharacterPacket env client1")
  from d c1 p have "e = None \<and> l = HeaderLoop \<and> evs' = evs \<and> client' = resetFrame client2"
    by (cases e) (auto simp: dispatchFrame_def split: failure.splits)
  with c1 p show ?thesis by (intro exI [of _ client1] exI [of _ client2]) (simp add: resetFrame_eq)
qed


lemma replicate_join: "replicate m x @ replicate n x = replicate (m + n) x"
  by (simp add: replicate_add)

lemma processCharacterPacket_recvSize:
  assumes "\<forall>c. recvSize (snd (VerifyAccount env c)) = recvSize c"
  shows "recvSize (snd (processCharacterPacket env client)) = recvSize client"
proof -
  have login: "recvSize (snd (handleCharLogin env client)) = recvSize client"
    using assms [rule_format, of client]
    by (cases "VerifyAccount env client")
      (auto simp: handleCharLogin_def SendSecurity_def send_def split: option.splits)
  have key: "recvSize (snd (handleKeyConfig env client)) = recvSize client"
    by (auto simp: handleKeyConfig_def SendOptions_def send_def Let_def split: queryResult.splits)
  have sel: "recvSize (snd (handleCharacterSelect env client)) = recvSize client"
    by (auto simp: handleCharacterSelect_def SendCharPreviewNone_def send_def
        split: queryResult.splits option.splits)
  have gc: "recvSize (snd (handleGuildcardDataStart env client)) = recvSize client"
    by (auto simp: handleGuildcardDataStart_def SendGuildcardHeader_def send_def Let_def
        split: option.splits)
  have chunk: "recvSize (snd (handleGuildcardChunk env client)) = recvSize client"
    by (auto simp: handleGuildcardChunk_def SendGuildcardChunk_def send_def
        split: option.splits)
  have upd: "recvSize (snd (handleCharacterUpdate env client)) = recvSize client"
    by (simp add: handleCharacterUpdate_def)
  show ?thesis
    unfolding processCharacterPacket_def
    by (simp add: login key sel gc chunk upd SendChecksumAck_def SendParameterHeader_def
        SendParameterChunk_def send_def split: option.splits)
qed

lemma decryptBody_recvSize: "decryptBody env client = Some client1 \<Longrightarrow> recvSize client1 = recvSize client"
  by (auto simp: decryptBody_def split: option.splits prod.splits)


text \<open>
  Claim C6, as the code has it. When the whole frame is in the buffer and is dispatched
  and handled without error, the loop continues with the next header, the two cursors are
  0, and the first \<open>recvSize\<close> bytes of the buffer are zero, the rest is as it was:
  \<open>ZeroSlice\<close> is called with the count of received bytes, which is at least the size
  field of the frame. The handlers of this file leave that count as it is; so the count
  is the one at dispatch when \<open>VerifyAccount\<close>, which is not part of these sources,
  leaves it too.
\<close>

theorem frame_reset_after_dispatch:
  assumes st: "bodyStep env client evs = Inl (l, client', evs')"
    and whole: "unat (packetSize client) \<le> recvSize client"
  shows "\<exists>client1 client2.
      (if packetSize client > 8 then decryptBody env client else Some client) = Some client1
    \<and> processCharacterPacket env client1 = (None, client2)
    \<and> l = HeaderLoop \<and> evs' = evs
    \<and> client' = client2\<lparr>recvData := replicate (min (recvSize client2) (length (recvData client2))) 0
                                        @ drop (recvSize client2) (recvData client2),
                          recvSize := 0, packetSize := 0\<rparr>
    \<and> ((\<forall>c. recvSize (snd (VerifyAccount env c)) = recvSize c) \<longrightarrow>
           recvSize client2 = recvSize client)"
proof -
  from bodyStep_dispatch [OF st whole] obtain client1 client2 where
    c1: "(if packetSize client > 8 then decryptBody env client else Some client) = Some client1"
    and p: "processCharacterPacket env client1 = (None, client2)"
    and rest: "l = HeaderLoop" "evs' = evs"
      "client' = client2\<lparr>recvData := replicate (min (recvSize client2) (length (recvData client2))) 0
                                        @ drop (recvSize client2) (recvData client2),
                          recvSize := 0, packetSize := 0\<rparr>"
    by auto
  have r1: "recvSize client1 = recvSize client"
    using c1 decryptBody_recvSize [of env client client1] by (auto split: if_splits)
  have "recvSize client2 = recvSize client"
    if "\<forall>c. recvSize (snd (VerifyAccount env c)) = recvSize c"
    using processCharacterPacket_recvSize [OF that, of client1] p r1 by simp
  with c1 p rest show ?thesis
    by (intro exI [of _ client1] exI [of _ client2] conjI impI)
qed

theorem frame_reset_after_dispatch_witness:
  "bodyStep plainEnv
      (newClient\<lparr>recvData := [8, 0, 0xE8, 0x01, 0, 0, 0, 0] @ replicate 1016 0,
                 recvSize := 8, packetSize := 8\<rparr>) []
     = Inl (HeaderLoop, newClient\<lparr>conn_sent := [ChecksumAckPacket 1]\<rparr>, [])
   \<and> recvData (newClient\<lparr>conn_sent := [ChecksumAckPacket 1]\<rparr>) = replicate 8 0 @ replicate 1016 0
   \<and> recvSize (newClient\<lparr>conn_sent := [ChecksumAckPacket 1]\<rparr>) = 0
   \<and> packetSize (newClient\<lparr>conn_sent := [ChecksumAckPacket 1]\<rparr>) = 0"
proof -
  let ?frame = "[8, 0, 0xE8, 0x01, 0, 0, 0, 0] :: u8 list"
  define c1 where
    "c1 = newClient\<lparr>recvData := ?frame @ replicate 1016 0, recvSize := 8, packetSize := 8\<rparr>"
  define c2 where "c2 = newClient\<lparr>conn_sent := [ChecksumAckPacket 1]\<rparr>"
  have f1: "recvSize c1 = 8" "packetSize c1 = 8" "recvData c1 = ?frame @ replicate 1016 0"
    by (simp_all add: c1_def)
  have pp: "PrintPayload (?frame @ replicate 1016 0) 8"
    using PrintPayload_within [of 8 "?frame @ replicate 1016 0"] by simp
  have p: "processCharacterPacket plainEnv c1 = (None, SendChecksumAck c1 1)"
    using pp
    by (simp add: processCharacterPacket_def f1 BBHeaderSize_def
        StructFromBytes_BBPktHeader_def le_u16_def plainEnv_def bbTypes_def)
  have r: "resetFrame (SendChecksumAck c1 1) = c2"
    by (simp add: resetFrame_eq SendChecksumAck_def send_def c1_def c2_def newClient_def
        replicate_join)
  have b: "bodyStep plainEnv c1 [] = Inl (HeaderLoop, c2, [])"
    by (simp add: bodyStep_def dispatchFrame_def f1 p r)
  have w: "unat (packetSize c1) \<le> recvSize c1" by (simp add: f1)
  from frame_reset_after_dispatch [OF b w] obtain client1 client2 where
    "(if packetSize c1 > 8 then decryptBody plainEnv c1 else Some c1) = Some client1"
    and "processCharacterPacket plainEnv client1 = (None, client2)"
    and c2': "c2 = client2\<lparr>recvData := replicate (min (recvSize client2) (length (recvData client2))) 0
                                        @ drop (recvSize client2) (recvData client2),
                          recvSize := 0, packetSize := 0\<rparr>"
    by auto
  then have "client1 = c1" "client2 = SendChecksumAck c1 1" using p by (simp_all add: f1)
  with c2' have "recvData c2 = replicate 8 0 @ replicate 1016 0" "recvSize c2 = 0" "packetSize c2 = 0"
    by (simp_all add: SendChecksumAck_def send_def f1)
  with b show ?thesis unfolding c1_def c2_def by (intro conjI)
qed

text \<open>
  Claim C6 as stated, that exactly the first \<open>size\<close> bytes are zeroed, fails when a read
  delivers more than one frame. Two frames of 8 bytes arrive in one read: after the first
  is handled, byte 8 of the buffer, the first byte of the second frame, is zero as well;
  the session then waits for a header, and only one acknowledgement was sent.
\<close>

theorem frame_reset_counterexample:
  "bodyStep plainEnv
      (newClient\<lparr>recvData := [8, 0, 0xE8, 0x01, 0, 0, 0, 0, 8, 0, 0xE8, 0x01, 0, 0, 0, 0]
                                  @ replicate 1008 0,
                 recvSize := 16, packetSize := 8\<rparr>) []
     = Inl (HeaderLoop, newClient\<lparr>conn_sent := [ChecksumAckPacket 1]\<rparr>, [])
   \<and> recvData (newClient\<lparr>recvData := [8, 0, 0xE8, 0x01, 0, 0, 0, 0, 8, 0, 0xE8, 0x01, 0, 0, 0, 0]
                                  @ replicate 1008 0,
                 recvSize := 16, packetSize := 8\<rparr>) ! 8 = 8
   \<and> recvData (newClient\<lparr>conn_sent := [ChecksumAckPacket 1]\<rparr>) ! 8 = 0
   \<and> handleCharacterClient plainEnv newClient
        [Bytes [8, 0, 0xE8, 0x01, 0, 0, 0, 0, 8, 0, 0xE8, 0x01, 0, 0, 0, 0]]
     = (Waiting, newClient\<lparr>conn_sent := [ChecksumAckPacket 1]\<rparr>)"
proof -
  let ?frames = "[8, 0, 0xE8, 0x01, 0, 0, 0, 0, 8, 0, 0xE8, 0x01, 0, 0, 0, 0] :: u8 list"
  define c1 where
    "c1 = newClient\<lparr>recvData := ?frames @ replicate 1008 0, recvSize := 16, packetSize := 8\<rparr>"
  define c2 where "c2 = newClient\<lparr>conn_sent := [ChecksumAckPacket 1]\<rparr>"
  have f1: "recvSize c1 = 16" "packetSize c1 = 8" "recvData c1 = ?frames @ replicate 1008 0"
    by (simp_all add: c1_def)
  have s1: "step plainEnv HeaderLoop newClient [Bytes ?frames] = Inl (HeaderLoop, c1, [])"
    by (simp add: step_def headerStep_def newClient_def BBHeaderSize_def conn_Read_def c1_def
        received_def overwrite_def decryptHeader_def plainEnv_def GetPacketSize_def le_u16_def)
  have s2: "step plainEnv HeaderLoop c1 [] = Inl (BodyLoop, c1, [])"
    by (simp add: step_def headerStep_def f1 BBHeaderSize_def)
  have pp: "PrintPayload (?frames @ replicate 1008 0) 8"
    using PrintPayload_within [of 8 "?frames @ replicate 1008 0"] by simp
  have p: "processCharacterPacket plainEnv c1 = (None, SendChecksumAck c1 1)"
    using pp
    by (simp add: processCharacterPacket_def f1 BBHeaderSize_def
        StructFromBytes_BBPktHeader_def le_u16_def plainEnv_def bbTypes_def)
  have r: "resetFrame (SendChecksumAck c1 1) = c2"
    by (simp add: resetFrame_eq SendChecksumAck_def send_def c1_def c2_def newClient_def
        replicate_join)
  have b: "bodyStep plainEnv c1 [] = Inl (HeaderLoop, c2, [])"
    by (simp add: bodyStep_def dispatchFrame_def f1 p r)
  then have s3: "step plainEnv BodyLoop c1 [] = Inl (HeaderLoop, c2, [])"
    by (simp add: step_def)
  have s4: "step plainEnv HeaderLoop c2 [] = Inr (Waiting, c2)"
    by (simp add: step_def headerStep_def c2_def newClient_def BBHeaderSize_def conn_Read_def)
  have "run plainEnv HeaderLoop newClient [Bytes ?frames] = (Waiting, c2)"
    by (subst run.simps, simp only: s1 sum.case prod.case,
        subst run.simps, simp only: s2 sum.case prod.case,
        subst run.simps, simp only: s3 sum.case prod.case,
        subst run.simps, simp only: s4 sum.case prod.case) simp
  then have full: "handleCharacterClient plainEnv newClient [Bytes ?frames] = (Waiting, c2)"
    by (simp add: handleCharacterClient_def)
  have n1: "recvData c1 ! 8 = 8" by (simp add: c1_def)
  have n2: "recvData c2 ! 8 = 0" by (simp add: c2_def newClient_def)
  from b n1 n2 full show ?thesis unfolding c1_def c2_def by (intro conjI)
qed

subsection \<open>The size field of a frame\<close>





end
